theory Spec2Isabelle
  imports Main
begin

section \<open>UTF-8: strings as runes\<close>

text \<open>
  Go converts a string to \<open>[]rune\<close> by decoding UTF-8: every byte that does not start
  a well-formed sequence becomes the rune U+FFFD and counts for one byte. \<open>DecodeRune\<close>
  follows \<open>utf8.DecodeRune\<close> (the first-byte table and the accepted range of the
  second byte); it returns the rune and the number of bytes it took.
\<close>

type_synonym rune = nat

definition RuneError :: rune where
  "RuneError = 0xFFFD"

definition DecodeRune :: "nat list \<Rightarrow> rune \<times> nat" where
  "DecodeRune p =
     (case p of
        [] \<Rightarrow> (RuneError, 0)
      | p0 # rest \<Rightarrow>
          if p0 < 0x80 then (p0, 1)
          else if p0 < 0xC2 \<or> 0xF4 < p0 then (RuneError, 1)
          else
            let sz = (if p0 < 0xE0 then 2 else if p0 < 0xF0 then 3 else 4 :: nat);
                lo = (if p0 = 0xE0 then 0xA0 else if p0 = 0xF0 then 0x90 else 0x80 :: nat);
                hi = (if p0 = 0xED then 0x9F else if p0 = 0xF4 then 0x8F else 0xBF :: nat)
            in
              if length p < sz then (RuneError, 1)
              else if p ! 1 < lo \<or> hi < p ! 1 then (RuneError, 1)
              else if sz \<le> 2 then ((p0 mod 32) * 64 + p ! 1 mod 64, 2)
              else if p ! 2 < 0x80 \<or> 0xBF < p ! 2 then (RuneError, 1)
              else if sz \<le> 3 then
                ((p0 mod 16) * 4096 + (p ! 1 mod 64) * 64 + p ! 2 mod 64, 3)
              else if p ! 3 < 0x80 \<or> 0xBF < p ! 3 then (RuneError, 1)
              else
                ((p0 mod 8) * 262144 + (p ! 1 mod 64) * 4096 + (p ! 2 mod 64) * 64
                   + p ! 3 mod 64, 4))"

text \<open>Each rune of a byte sequence, with the bytes it was decoded from.\<close>

fun decodeChunks :: "nat list \<Rightarrow> (rune \<times> nat list) list" where
  "decodeChunks [] = []"
| "decodeChunks (b # bs) =
     (fst (DecodeRune (b # bs)), b # take (snd (DecodeRune (b # bs)) - 1) bs)
     # decodeChunks (drop (snd (DecodeRune (b # bs)) - 1) bs)"

definition runesOf :: "string \<Rightarrow> rune list" where
  "runesOf s = map fst (decodeChunks (map of_char s))"

text \<open>\<open>string(runes)\<close>: every rune is encoded; a surrogate or a value past U+10FFFF as U+FFFD.\<close>

definition EncodeRune :: "rune \<Rightarrow> nat list" where
  "EncodeRune r =
     (if r < 0x80 then [r]
      else if r < 0x800 then [0xC0 + r div 64, 0x80 + r mod 64]
      else if 0x10FFFF < r \<or> (0xD800 \<le> r \<and> r \<le> 0xDFFF) then [0xEF, 0xBF, 0xBD]
      else if r < 0x10000 then
        [0xE0 + r div 4096, 0x80 + (r div 64) mod 64, 0x80 + r mod 64]
      else
        [0xF0 + r div 262144, 0x80 + (r div 4096) mod 64, 0x80 + (r div 64) mod 64,
         0x80 + r mod 64])"

definition stringOfRunes :: "rune list \<Rightarrow> string" where
  "stringOfRunes rs = map char_of (concat (map EncodeRune rs))"

text \<open>\<open>unicode.IsSpace\<close>: the Latin-1 spaces and the code points of the White_Space property.\<close>

definition IsSpace :: "rune \<Rightarrow> bool" where
  "IsSpace r =
     (r = 0x09 \<or> r = 0x0A \<or> r = 0x0B \<or> r = 0x0C \<or> r = 0x0D \<or> r = 0x20
      \<or> r = 0x85 \<or> r = 0xA0 \<or> r = 0x1680 \<or> (0x2000 \<le> r \<and> r \<le> 0x200A)
      \<or> r = 0x2028 \<or> r = 0x2029 \<or> r = 0x202F \<or> r = 0x205F \<or> r = 0x3000)"

text \<open>
  \<open>strings.TrimSpace\<close>: the bytes that remain once the leading and the trailing
  white-space runes are dropped, the runes being those of the decoding from the front.
\<close>

definition TrimSpace :: "string \<Rightarrow> string" where
  "TrimSpace s =
     map char_of (concat (map snd
       (rev (dropWhile (\<lambda>c. IsSpace (fst c))
          (rev (dropWhile (\<lambda>c. IsSpace (fst c)) (decodeChunks (map of_char s))))))))"

section \<open>Go strings\<close>

text \<open>
  A Go string is a sequence of bytes, modelled as a \<open>string\<close> (a list of 8-bit
  characters). \<open>Contains\<close> is \<open>strings.Contains\<close>: some suffix of the string starts
  with the substring.

  \<open>unicode.ToLower\<close> lowercases an ASCII rune by arithmetic and looks every other rune
  up in the case table of the \<open>unicode\<close> package (\<open>unicode.CaseRanges\<close>). That table
  belongs to the Go library and not to the program; it is the parameter \<open>table\<close> of the
  functions below, \<open>table r\<close> standing for \<open>unicode.To(unicode.LowerCase, r)\<close> on a rune
  above U+007F. What is proved for every table holds for the one of the library; in it, for
  instance, U+0130 (capital I with a dot above) has the lower case \<open>i\<close> and U+212A (the
  Kelvin sign) the lower case \<open>k\<close>.
\<close>

definition unicodeToLower :: "(rune \<Rightarrow> rune) \<Rightarrow> rune \<Rightarrow> rune" where
  "unicodeToLower table r =
     (if r \<le> 0x7F then (if 0x41 \<le> r \<and> r \<le> 0x5A then r + 0x20 else r)
      else table r)"

text \<open>
  \<open>strings.Map\<close>. The first loop looks for the first rune that the mapping changes, or
  the first byte that is not well-formed UTF-8 (it decodes to U+FFFD with a width of 1);
  when there is none, the string is returned as it is. Otherwise the bytes before that
  place are kept, and the second loop encodes the mapped rune of that place and of every
  place after it, so a byte that is not well-formed becomes the three bytes of U+FFFD. (A
  negative mapped rune would be dropped; the mapped runes here are never negative.)
\<close>

fun mapRest :: "(rune \<Rightarrow> rune) \<Rightarrow> (rune \<times> nat list) list \<Rightarrow> nat list" where
  "mapRest mapping [] = []"
| "mapRest mapping ((c, bytes) # rest) = EncodeRune (mapping c) @ mapRest mapping rest"

fun mapFirst :: "(rune \<Rightarrow> rune) \<Rightarrow> nat list \<Rightarrow> (rune \<times> nat list) list \<Rightarrow> nat list" where
  "mapFirst mapping unchanged [] = unchanged"
| "mapFirst mapping unchanged ((c, bytes) # rest) =
     (if mapping c = c \<and> (c \<noteq> RuneError \<or> length bytes \<noteq> 1)
      then mapFirst mapping (unchanged @ bytes) rest
      else unchanged @ EncodeRune (mapping c) @ mapRest mapping rest)"

definition Map :: "(rune \<Rightarrow> rune) \<Rightarrow> string \<Rightarrow> string" where
  "Map mapping s = map char_of (mapFirst mapping [] (decodeChunks (map of_char s)))"

text \<open>
  \<open>strings.ToLower\<close>. A string of ASCII bytes only is returned as it is when it holds no
  capital letter, and otherwise with the bytes \<open>A\<close>..\<open>Z\<close> moved to \<open>a\<close>..\<open>z\<close>; the
  case table is not consulted. Any other string goes through \<open>strings.Map\<close> with
  \<open>unicode.ToLower\<close>.
\<close>

definition lowerByte :: "char \<Rightarrow> char" where
  "lowerByte c =
     (if 65 \<le> (of_char c :: nat) \<and> (of_char c :: nat) \<le> 90
      then char_of ((of_char c :: nat) + 32) else c)"

definition ToLower :: "(rune \<Rightarrow> rune) \<Rightarrow> string \<Rightarrow> string" where
  "ToLower table s =
     (if list_all (\<lambda>c. (of_char c :: nat) < 0x80) s then
        (if list_ex (\<lambda>c. 65 \<le> (of_char c :: nat) \<and> (of_char c :: nat) \<le> 90) s
         then map lowerByte s else s)
      else Map (unicodeToLower table) s)"

fun HasPrefix :: "string \<Rightarrow> string \<Rightarrow> bool" where
  "HasPrefix s [] = True"
| "HasPrefix [] (p # ps) = False"
| "HasPrefix (c # cs) (p # ps) = (c = p \<and> HasPrefix cs ps)"

fun Contains :: "string \<Rightarrow> string \<Rightarrow> bool" where
  "Contains [] substr = HasPrefix [] substr"
| "Contains (c # cs) substr = (if HasPrefix (c # cs) substr then True else Contains cs substr)"

section \<open>Circle matching: services/circle_matching.go\<close>

datatype CircleCategory =
  CircleCategoryCrisis
| CircleCategoryAnxietyDepression
| CircleCategoryAcademicStress
| CircleCategorySocialAdjustment
| CircleCategoryGeneralSupport

definition crisisKeywords :: "string list" where
  "crisisKeywords = [''self'', ''harm'', ''suicide'', ''hopeless'']"

definition anxietyDepKeywords :: "string list" where
  "anxietyDepKeywords =
     [''anxiety'', ''anxious'', ''nervous'', ''low mood'', ''depressed'', ''depression'', ''sleep'']"

definition academicKeywords :: "string list" where
  "academicKeywords = [''exam'', ''stress'', ''motivation'', ''academic'', ''study'']"

definition socialKeywords :: "string list" where
  "socialKeywords = [''relationship'', ''social'', ''adjustment'', ''college'', ''friend'']"

text \<open>The inner loop over the keywords of one list: true at the first keyword the topic contains.\<close>

fun containsAnyKeyword :: "string list \<Rightarrow> string \<Rightarrow> bool" where
  "containsAnyKeyword [] topic = False"
| "containsAnyKeyword (keyword # kws) topic =
     (if Contains topic keyword then True else containsAnyKeyword kws topic)"

text \<open>The crisis loop returns at the first topic that contains a crisis keyword.\<close>

fun anyTopicMatches :: "string list \<Rightarrow> string list \<Rightarrow> bool" where
  "anyTopicMatches kws [] = False"
| "anyTopicMatches kws (topic # topics) =
     (if containsAnyKeyword kws topic then True else anyTopicMatches kws topics)"

text \<open>The counting loops add one for each topic with a keyword of the list (\<open>count++; break\<close>).\<close>

fun countTopics :: "string list \<Rightarrow> string list \<Rightarrow> nat \<Rightarrow> nat" where
  "countTopics kws [] count = count"
| "countTopics kws (topic # topics) count =
     countTopics kws topics (if containsAnyKeyword kws topic then count + 1 else count)"

definition DetermineCircleCategory :: "(rune \<Rightarrow> rune) \<Rightarrow> string list \<Rightarrow> CircleCategory" where
  "DetermineCircleCategory table topics =
     (let topicsLower = map (ToLower table) topics in
      if anyTopicMatches crisisKeywords topicsLower then CircleCategoryCrisis
      else if countTopics anxietyDepKeywords topicsLower 0 > 0 then CircleCategoryAnxietyDepression
      else if countTopics academicKeywords topicsLower 0 > 0 then CircleCategoryAcademicStress
      else if countTopics socialKeywords topicsLower 0 > 0 then CircleCategorySocialAdjustment
      else CircleCategoryGeneralSupport)"

text \<open>
  The scores are Go \<open>int\<close>s that are only compared with constants, so unbounded
  integers model them exactly.
\<close>

definition IsCriticalRisk :: "int \<Rightarrow> int \<Rightarrow> bool" where
  "IsCriticalRisk phq2Total gad2Total =
     ((phq2Total \<ge> 5 \<and> gad2Total \<ge> 5) \<or> phq2Total = 6 \<or> gad2Total = 6)"

section \<open>Onboarding: handlers/onboarding.go\<close>

datatype ScreeningLevel = ScreeningLevelLow | ScreeningLevelMedium | ScreeningLevelHigh

definition computeScreeningLevel :: "int \<Rightarrow> int \<Rightarrow> ScreeningLevel" where
  "computeScreeningLevel phq2 gad2 =
     (let maxScore = (if gad2 > phq2 then gad2 else phq2) in
      if maxScore \<ge> 5 then ScreeningLevelHigh
      else if maxScore \<ge> 3 then ScreeningLevelMedium
      else ScreeningLevelLow)"

section \<open>Safety scanner: services/safety.go\<close>

datatype SafetyCategory =
  SafetyCategorySelfHarm
| SafetyCategoryHarmToOthers
| SafetyCategoryDoxxing
| SafetyCategorySubstanceAbuse
| SafetyCategoryEatingDisorder
| SafetyCategoryDomesticAbuse
| SafetyCategorySexualHarm

record SafetyMatch =
  Category :: SafetyCategory
  Severity :: string
  MatchedText :: string
  Start :: nat
  End :: nat

record SafetyResult =
  Flagged :: bool
  MaskedContent :: string
  Matches :: "SafetyMatch list"
  RequiresEscalation :: bool

text \<open>
  A rule of the table. The compiled regular expression is named by its position in the
  source table; the regular expression engine is not part of the program, and what it
  answers is the parameter \<open>findAll\<close> of \<open>CheckContent\<close>:
  \<open>findAll n content\<close> stands for \<open>Pattern.FindAllStringIndex(content, -1)\<close> of rule
  \<open>n\<close>, the list of the matches as pairs of byte offsets (start, end).
\<close>

record SafetyPattern =
  Pattern :: nat
  PatternCategory :: SafetyCategory
  PatternSeverity :: string

type_synonym finder = "nat \<Rightarrow> string \<Rightarrow> (nat \<times> nat) list"

definition safetyRule :: "nat \<Rightarrow> SafetyCategory \<Rightarrow> string \<Rightarrow> SafetyPattern" where
  "safetyRule n c s = \<lparr>Pattern = n, PatternCategory = c, PatternSeverity = s\<rparr>"

text \<open>
  The table in source order: rules 0 to 3 self-harm (critical), 4 and 5 self-harm (high),
  6 to 8 harm to others (critical), 9 harm to others (high), 10 to 13 doxxing (critical,
  12 and 13 being the digit patterns), 14 and 15 substance abuse (critical), 16 and 17
  substance abuse (high), 18 and 19 eating disorder (high), 20 and 21 domestic abuse
  (critical), 22 domestic abuse (high), 23 and 24 sexual harm (critical). Rule 0, which
  the examples below use, matches among other phrases the words suicide, suicidal and
  suiciding, in any case, between word boundaries.
\<close>

definition safetyPatterns :: "SafetyPattern list" where
  "safetyPatterns =
     [safetyRule 0 SafetyCategorySelfHarm ''critical'',
      safetyRule 1 SafetyCategorySelfHarm ''critical'',
      safetyRule 2 SafetyCategorySelfHarm ''critical'',
      safetyRule 3 SafetyCategorySelfHarm ''critical'',
      safetyRule 4 SafetyCategorySelfHarm ''high'',
      safetyRule 5 SafetyCategorySelfHarm ''high'',
      safetyRule 6 SafetyCategoryHarmToOthers ''critical'',
      safetyRule 7 SafetyCategoryHarmToOthers ''critical'',
      safetyRule 8 SafetyCategoryHarmToOthers ''critical'',
      safetyRule 9 SafetyCategoryHarmToOthers ''high'',
      safetyRule 10 SafetyCategoryDoxxing ''critical'',
      safetyRule 11 SafetyCategoryDoxxing ''critical'',
      safetyRule 12 SafetyCategoryDoxxing ''critical'',
      safetyRule 13 SafetyCategoryDoxxing ''critical'',
      safetyRule 14 SafetyCategorySubstanceAbuse ''critical'',
      safetyRule 15 SafetyCategorySubstanceAbuse ''critical'',
      safetyRule 16 SafetyCategorySubstanceAbuse ''high'',
      safetyRule 17 SafetyCategorySubstanceAbuse ''high'',
      safetyRule 18 SafetyCategoryEatingDisorder ''high'',
      safetyRule 19 SafetyCategoryEatingDisorder ''high'',
      safetyRule 20 SafetyCategoryDomesticAbuse ''critical'',
      safetyRule 21 SafetyCategoryDomesticAbuse ''critical'',
      safetyRule 22 SafetyCategoryDomesticAbuse ''high'',
      safetyRule 23 SafetyCategorySexualHarm ''critical'',
      safetyRule 24 SafetyCategorySexualHarm ''critical'']"

record matchPos =
  mstart :: nat
  mend :: nat
  mcategory :: SafetyCategory
  mseverity :: string

text \<open>
  A Go run-time panic. In \<open>maskContent\<close> the slice expressions \<open>runes[:start]\<close> and
  \<open>runes[end:]\<close> panic when the offset lies past the runes, and \<open>strings.Repeat\<close>
  panics on a negative count; \<open>matches[0]\<close> panics on an empty slice.
\<close>

datatype panic = SliceBoundsOutOfRange | NegativeRepeatCount | IndexOutOfRange

text \<open>
  The loop over the matches of one rule: it updates the result and the positions. The
  engine reports spans of the content, so the slice \<open>content[start:end]\<close> of the source
  is defined; the model reads it with \<open>take\<close> and \<open>drop\<close>.
\<close>

fun recordMatches ::
  "SafetyPattern \<Rightarrow> string \<Rightarrow> (nat \<times> nat) list \<Rightarrow> SafetyResult \<times> matchPos list
     \<Rightarrow> SafetyResult \<times> matchPos list" where
  "recordMatches pattern content [] acc = acc"
| "recordMatches pattern content (m # allMatches) (result, matches) =
     recordMatches pattern content allMatches
       (result
          \<lparr>Flagged := True,
           RequiresEscalation :=
             (if PatternSeverity pattern = ''critical'' then True else RequiresEscalation result),
           Matches := Matches result @
             [\<lparr>Category = PatternCategory pattern, Severity = PatternSeverity pattern,
               MatchedText = take (snd m - fst m) (drop (fst m) content),
               Start = fst m, End = snd m\<rparr>]\<rparr>,
        matches @
          [\<lparr>mstart = fst m, mend = snd m, mcategory = PatternCategory pattern,
            mseverity = PatternSeverity pattern\<rparr>])"

text \<open>The loop over the rules of the table.\<close>

fun checkPatterns ::
  "finder \<Rightarrow> SafetyPattern list \<Rightarrow> string \<Rightarrow> SafetyResult \<times> matchPos list
     \<Rightarrow> SafetyResult \<times> matchPos list" where
  "checkPatterns findAll [] content acc = acc"
| "checkPatterns findAll (pattern # patterns) content acc =
     checkPatterns findAll patterns content
       (recordMatches pattern content (findAll (Pattern pattern) content) acc)"

text \<open>
  The exchange sort of \<open>maskContent\<close>, by start offset, descending: for every \<open>i\<close> and
  every \<open>j\<close> after it, the two entries are swapped when the later one starts further
  right. \<open>n\<close> is \<open>len(matches)\<close>, which the swaps do not change.
\<close>

function sortInner :: "nat \<Rightarrow> matchPos list \<Rightarrow> nat \<Rightarrow> nat \<Rightarrow> matchPos list" where
  "sortInner n matches i j =
     (if j < n then
        sortInner n
          (if mstart (matches ! j) > mstart (matches ! i)
           then matches[i := matches ! j, j := matches ! i] else matches)
          i (j + 1)
      else matches)"
  by pat_completeness auto
termination
  by (relation "measure (\<lambda>(n, matches, i, j). n - j)") auto

function sortOuter :: "nat \<Rightarrow> matchPos list \<Rightarrow> nat \<Rightarrow> matchPos list" where
  "sortOuter n matches i =
     (if i < n then sortOuter n (sortInner n matches i (i + 1)) (i + 1) else matches)"
  by pat_completeness auto
termination
  by (relation "measure (\<lambda>(n, matches, i). n - i)") auto

declare sortInner.simps [simp del] sortOuter.simps [simp del]

definition sortMatches :: "matchPos list \<Rightarrow> matchPos list" where
  "sortMatches matches = sortOuter (length matches) matches 0"

text \<open>
  One round of the merge loop: \<open>last\<close> is the last merged range (the list starts with
  one range and never shrinks); a range that reaches it is merged into it, any other range
  is appended.
\<close>

definition mergeStep :: "matchPos list \<Rightarrow> matchPos \<Rightarrow> matchPos list" where
  "mergeStep merged current =
     (if mend current \<ge> mstart (last merged) then
        butlast merged @
          [(last merged)
             \<lparr>mstart := (if mstart current < mstart (last merged)
                          then mstart current else mstart (last merged)),
              mend := (if mend current > mend (last merged)
                        then mend current else mend (last merged)),
              mseverity := (if mseverity current = ''critical''
                             then ''critical'' else mseverity (last merged))\<rparr>]
      else merged @ [current])"

fun mergeLoop :: "matchPos list \<Rightarrow> matchPos list \<Rightarrow> matchPos list" where
  "mergeLoop merged [] = merged"
| "mergeLoop merged (current # rest) = mergeLoop (mergeStep merged current) rest"

definition maskRune :: rune where
  "maskRune = 0x25AE"

text \<open>
  One round of the masking loop:
  \<open>runes = append(runes[:start], append([]rune(mask), runes[end:]...)...)\<close>. The offsets
  index the runes. \<open>runes[end:]\<close> needs \<open>end\<close> within the length; \<open>start\<close> is then
  within it as well.
\<close>

definition maskSpan :: "rune list \<Rightarrow> matchPos \<Rightarrow> panic + rune list" where
  "maskSpan runes m =
     (if mend m < mstart m then Inl NegativeRepeatCount
      else if length runes < mend m then Inl SliceBoundsOutOfRange
      else Inr (take (mstart m) runes @ replicate (mend m - mstart m) maskRune
                  @ drop (mend m) runes))"

fun maskLoop :: "rune list \<Rightarrow> matchPos list \<Rightarrow> panic + rune list" where
  "maskLoop runes [] = Inr runes"
| "maskLoop runes (m # merged) =
     (case maskSpan runes m of
        Inl e \<Rightarrow> Inl e
      | Inr runes' \<Rightarrow> maskLoop runes' merged)"

definition maskContent :: "string \<Rightarrow> matchPos list \<Rightarrow> panic + string" where
  "maskContent content matches =
     (if matches = [] then Inr content
      else
        case sortMatches matches of
          [] \<Rightarrow> Inl IndexOutOfRange
        | first # rest \<Rightarrow>
            (case maskLoop (runesOf content) (mergeLoop [first] rest) of
               Inl e \<Rightarrow> Inl e
             | Inr runes \<Rightarrow> Inr (stringOfRunes runes)))"

definition CheckContent :: "finder \<Rightarrow> string \<Rightarrow> panic + SafetyResult" where
  "CheckContent findAll content =
     (let result = \<lparr>Flagged = False, MaskedContent = content, Matches = [],
                     RequiresEscalation = False\<rparr>
      in
        if TrimSpace content = [] then Inr result
        else
          (case checkPatterns findAll safetyPatterns content (result, []) of
             (result', matches) \<Rightarrow>
               if Flagged result' then
                 (case maskContent content matches of
                    Inl e \<Rightarrow> Inl e
                  | Inr masked \<Rightarrow> Inr (result'\<lparr>MaskedContent := masked\<rparr>))
               else Inr result'))"

section \<open>The database\<close>

text \<open>
  The program reaches its PostgreSQL database through a generated Prisma client. The
  model keeps the rows of five tables, in insertion order. Field
  names carry a prefix for their table: \<open>uID\<close> is \<open>User.ID\<close>, \<open>cID\<close> is
  \<open>Circle.ID\<close>, \<open>cmUserID\<close> is \<open>CircleMembership.UserID\<close>, \<open>msgID\<close> is
  \<open>Message.ID\<close>, \<open>mrUserID\<close> is \<open>MessageRead.UserID\<close>.
\<close>

datatype UserRole = UserRoleUser | UserRoleModerator

datatype CircleStatus = CircleStatusActive | CircleStatusFull

record UserModel =
  uID :: string
  uEmail :: string
  uFullName :: string
  uRole :: UserRole
  uProfilePicture :: "string option"

record CircleModel =
  cID :: string
  cName :: string
  cCategory :: CircleCategory
  cStatus :: CircleStatus
  cModeratorID :: string
  cMaxMembers :: int

record CircleMembershipModel =
  cmCircleID :: string
  cmUserID :: string

record MessageModel =
  msgID :: string
  msgCircleID :: string
  msgSenderID :: string
  msgContent :: string
  msgImageURL :: "string option"
  msgCreatedAt :: string

record MessageReadModel =
  mrMessageID :: string
  mrUserID :: string

record Database =
  User :: "UserModel list"
  Circle :: "CircleModel list"
  CircleMembership :: "CircleMembershipModel list"
  Message :: "MessageModel list"
  MessageRead :: "MessageReadModel list"

text \<open>
  Every call of the client can fail with an error of the connection or of the database.
  The calls are named by their place in the source, and the environment says which of
  them fail. A create call that links a row which does not exist fails, as does one whose
  identifier is taken.
\<close>

datatype dbCall =
  FindOrCreateCircle_CircleFindMany
| assignModerator_UserFindMany
| generateCircleName_CircleFindMany
| FindOrCreateCircle_CircleCreateOne
| AddUserToCircle_MembershipFindFirst
| AddUserToCircle_MembershipCreateOne
| AddUserToCircle_CircleFindUnique
| AddUserToCircle_CircleUpdate
| SubmitOnboarding_UserFindUnique
| userHasCircleAccess_MembershipFindFirst
| userHasCircleAccess_CircleFindUnique
| send_message_MessageCreateOne
| send_message_MessageReadCreateOne
| mark_read_MessageReadFindFirst
| mark_read_MessageReadCreateOne
| mark_read_MessageReadFindMany

text \<open>
  Modelled from the spec: the Prisma schema, which holds the defaults of a created row, is
  not among the sources. The specification names the statuses active and full and a fixed
  capacity (for example 6); a created circle is active, and its capacity is the parameter
  \<open>defaultMaxMembers\<close>. The environment also holds what the database chooses when it
  creates a row: the identifier (\<open>newID\<close>) and the creation time, already formatted
  (\<open>now\<close>); and the case table of the Go library (\<open>caseTable\<close>), which the
  matching hands to \<open>strings.ToLower\<close>.
\<close>

record Env =
  failing :: "dbCall \<Rightarrow> bool"
  newID :: string
  now :: string
  defaultMaxMembers :: int
  caseTable :: "rune \<Rightarrow> rune"

definition membershipsOf :: "Database \<Rightarrow> string \<Rightarrow> CircleMembershipModel list" where
  "membershipsOf db circleID = filter (\<lambda>m. cmCircleID m = circleID) (CircleMembership db)"

definition userExists :: "Database \<Rightarrow> string \<Rightarrow> bool" where
  "userExists db userID = list_ex (\<lambda>u. uID u = userID) (User db)"

definition circleExists :: "Database \<Rightarrow> string \<Rightarrow> bool" where
  "circleExists db circleID = list_ex (\<lambda>c. cID c = circleID) (Circle db)"

definition messageExists :: "Database \<Rightarrow> string \<Rightarrow> bool" where
  "messageExists db messageID = list_ex (\<lambda>m. msgID m = messageID) (Message db)"

section \<open>Circle assignment: services/circle_matching.go\<close>

datatype matchError =
  FailedToQueryCircles
| FailedToQueryModerators
| NoModeratorsAvailable
| NilModerator
| FailedToCreateCircle
| UserAlreadyInCircle
| FailedToAddUserToCircle
| CircleLookupFailed
| CircleUpdateFailed

text \<open>The loop of FindOrCreateCircle: the first circle with fewer members than its capacity.\<close>

fun findAvailable :: "Database \<Rightarrow> CircleModel list \<Rightarrow> CircleModel option" where
  "findAvailable db [] = None"
| "findAvailable db (circle # circles) =
     (if int (length (membershipsOf db (cID circle))) < cMaxMembers circle then Some circle
      else findAvailable db circles)"

text \<open>
  The loop of assignModeratorRoundRobin: the first moderator with the fewest active
  circles. \<open>minCircles\<close> starts at the largest \<open>int\<close>.
\<close>

fun selectModerator ::
  "Database \<Rightarrow> UserModel list \<Rightarrow> UserModel option \<Rightarrow> int \<Rightarrow> UserModel option" where
  "selectModerator db [] selectedModerator minCircles = selectedModerator"
| "selectModerator db (moderator # moderators) selectedModerator minCircles =
     (if int (length (filter (\<lambda>c. cModeratorID c = uID moderator \<and> cStatus c = CircleStatusActive)
                        (Circle db))) < minCircles
      then selectModerator db moderators (Some moderator)
             (int (length (filter (\<lambda>c. cModeratorID c = uID moderator \<and> cStatus c = CircleStatusActive)
                             (Circle db))))
      else selectModerator db moderators selectedModerator minCircles)"

definition assignModeratorRoundRobin :: "Env \<Rightarrow> Database \<Rightarrow> matchError + UserModel option" where
  "assignModeratorRoundRobin env db =
     (if failing env assignModerator_UserFindMany then Inl FailedToQueryModerators
      else if filter (\<lambda>u. uRole u = UserRoleModerator) (User db) = [] then Inl NoModeratorsAvailable
      else Inr (selectModerator db (filter (\<lambda>u. uRole u = UserRoleModerator) (User db)) None
                  (2 ^ 63 - 1)))"

text \<open>\<open>%d\<close> of a count: the decimal digits.\<close>

fun decimal :: "nat \<Rightarrow> string" where
  "decimal n =
     (if n < 10 then [char_of (48 + n)] else decimal (n div 10) @ [char_of (48 + n mod 10)])"

declare decimal.simps [simp del]

definition prefixes :: "CircleCategory \<Rightarrow> string" where
  "prefixes category =
     (case category of
        CircleCategoryCrisis \<Rightarrow> ''Crisis''
      | CircleCategoryAnxietyDepression \<Rightarrow> ''Mindful''
      | CircleCategoryAcademicStress \<Rightarrow> ''Study''
      | CircleCategorySocialAdjustment \<Rightarrow> ''Connect''
      | CircleCategoryGeneralSupport \<Rightarrow> ''General'')"

definition generateCircleName :: "Env \<Rightarrow> Database \<Rightarrow> CircleCategory \<Rightarrow> string" where
  "generateCircleName env db category =
     prefixes category @ '' Circle #'' @
     decimal (if failing env generateCircleName_CircleFindMany then 1
              else length (filter (\<lambda>c. cCategory c = category) (Circle db)) + 1)"

definition FindOrCreateCircle ::
  "Env \<Rightarrow> Database \<Rightarrow> CircleCategory \<Rightarrow> (matchError + CircleModel) \<times> Database" where
  "FindOrCreateCircle env db category =
     (if failing env FindOrCreateCircle_CircleFindMany then (Inl FailedToQueryCircles, db)
      else
        case findAvailable db
               (filter (\<lambda>c. cCategory c = category \<and> cStatus c = CircleStatusActive) (Circle db)) of
          Some circle \<Rightarrow> (Inr circle, db)
        | None \<Rightarrow>
            (case assignModeratorRoundRobin env db of
               Inl e \<Rightarrow> (Inl e, db)
             | Inr None \<Rightarrow> (Inl NilModerator, db)
             | Inr (Some moderator) \<Rightarrow>
                 if failing env FindOrCreateCircle_CircleCreateOne
                    \<or> circleExists db (newID env) \<or> \<not> userExists db (uID moderator)
                 then (Inl FailedToCreateCircle, db)
                 else
                   (Inr \<lparr>cID = newID env, cName = generateCircleName env db category,
                         cCategory = category, cStatus = CircleStatusActive,
                         cModeratorID = uID moderator, cMaxMembers = defaultMaxMembers env\<rparr>,
                    db\<lparr>Circle := Circle db @
                         [\<lparr>cID = newID env, cName = generateCircleName env db category,
                           cCategory = category, cStatus = CircleStatusActive,
                           cModeratorID = uID moderator,
                           cMaxMembers = defaultMaxMembers env\<rparr>]\<rparr>)))"

text \<open>
  AddUserToCircle returns an error or nil. The error of the first lookup is dropped in the
  source, so a failed lookup counts as no membership found. A membership that was created
  stays when a later call fails.
\<close>

definition AddUserToCircle ::
  "Env \<Rightarrow> Database \<Rightarrow> string \<Rightarrow> string \<Rightarrow> matchError option \<times> Database" where
  "AddUserToCircle env db circleID userID =
     (if \<not> failing env AddUserToCircle_MembershipFindFirst
         \<and> list_ex (\<lambda>m. cmUserID m = userID) (CircleMembership db)
      then (Some UserAlreadyInCircle, db)
      else if failing env AddUserToCircle_MembershipCreateOne
              \<or> \<not> circleExists db circleID \<or> \<not> userExists db userID
      then (Some FailedToAddUserToCircle, db)
      else
        let db1 = db\<lparr>CircleMembership := CircleMembership db @
                       [\<lparr>cmCircleID = circleID, cmUserID = userID\<rparr>]\<rparr>
        in
          if failing env AddUserToCircle_CircleFindUnique then (Some CircleLookupFailed, db1)
          else
            case find (\<lambda>c. cID c = circleID) (Circle db1) of
              None \<Rightarrow> (Some CircleLookupFailed, db1)
            | Some circle \<Rightarrow>
                if int (length (membershipsOf db1 circleID)) \<ge> cMaxMembers circle then
                  (if failing env AddUserToCircle_CircleUpdate then (Some CircleUpdateFailed, db1)
                   else
                     (None,
                      db1\<lparr>Circle := map (\<lambda>c. if cID c = circleID
                                                 then c\<lparr>cStatus := CircleStatusFull\<rparr> else c)
                                         (Circle db1)\<rparr>))
                else (None, db1))"

text \<open>MatchUserToCircle returns the circle (or nil), the critical flag and the error (or nil).\<close>

definition MatchUserToCircle ::
  "Env \<Rightarrow> Database \<Rightarrow> string \<Rightarrow> string list \<Rightarrow> int \<Rightarrow> int
     \<Rightarrow> (CircleModel option \<times> bool \<times> matchError option) \<times> Database" where
  "MatchUserToCircle env db userID topics phq2Total gad2Total =
     (if IsCriticalRisk phq2Total gad2Total then ((None, True, None), db)
      else
        case FindOrCreateCircle env db (DetermineCircleCategory (caseTable env) topics) of
          (Inl e, db1) \<Rightarrow> ((None, False, Some e), db1)
        | (Inr circle, db1) \<Rightarrow>
            (case AddUserToCircle env db1 (cID circle) userID of
               (Some e, db2) \<Rightarrow> ((None, False, Some e), db2)
             | (None, db2) \<Rightarrow> ((Some circle, False, None), db2)))"

text \<open>
  The part of SubmitOnboarding after the user row is marked as onboarded (lines 270 to
  292): it calls MatchUserToCircle and starts the sending of an email, the critical-risk
  alert or the match notification. The result lists the emails whose sending is started.
\<close>

datatype email =
  CriticalRiskAlert string string int int "string list"
| CircleMatchNotification string string string string

definition SubmitOnboardingMatching ::
  "Env \<Rightarrow> Database \<Rightarrow> UserModel \<Rightarrow> string list \<Rightarrow> int \<Rightarrow> int
     \<Rightarrow> email list \<times> Database" where
  "SubmitOnboardingMatching env db user topics phq2Total gad2Total =
     (case MatchUserToCircle env db (uID user) topics phq2Total gad2Total of
        ((circle, isCritical, matchErr), db1) \<Rightarrow>
          if isCritical then
            ([CriticalRiskAlert (uFullName user) (uEmail user) phq2Total gad2Total topics], db1)
          else if matchErr \<noteq> None then ([], db1)
          else
            (case circle of
               None \<Rightarrow> ([], db1)
             | Some c \<Rightarrow>
                 (if failing env SubmitOnboarding_UserFindUnique then ([], db1)
                  else
                    case find (\<lambda>u. uID u = cModeratorID c) (User db1) of
                      None \<Rightarrow> ([], db1)
                    | Some moderator \<Rightarrow>
                        ([CircleMatchNotification (uFullName user) (uEmail user) (cName c)
                            (uFullName moderator)], db1))))"

section \<open>Socket events: websocket/socket_server.go\<close>

text \<open>
  A connection holds the user identifier that authentication stored in its context (none
  before authentication) and the rooms it has joined. A handler returns what it sends, in
  order: log lines (the format string of each \<open>log.Printf\<close>), events emitted to the
  connection and events broadcast to a room, together with the database and the
  connection after it. The payload of an event arrives as JSON text; the handlers take
  the outcome of \<open>json.Unmarshal\<close>, which is no payload for malformed text.
\<close>

record Conn =
  ctxUserID :: "string option"
  Rooms :: "string list"

record MessagePayload =
  CircleID :: string
  Content :: string
  ImageURL :: string
  Timestamp :: int

record ReadReceiptPayload =
  rrMessageID :: string
  rrCircleID :: string

record MessageResponse =
  respID :: string
  respCircleID :: string
  respSenderID :: string
  respSenderName :: string
  respSenderAvatar :: "string option"
  respContent :: string
  respImageURL :: "string option"
  respCreatedAt :: string
  respReadBy :: "string list"

datatype eventData =
  NewMessage MessageResponse
| MessageReadUpdate string string "string list"

datatype effect =
  Log string
| Emit string string
| BroadcastToRoom string string eventData

definition getUserIDFromConn :: "Conn \<Rightarrow> string option" where
  "getUserIDFromConn s =
     (case ctxUserID s of
        None \<Rightarrow> None
      | Some userID \<Rightarrow> if userID = [] then None else Some userID)"

definition ensureRoomMembership :: "Conn \<Rightarrow> string \<Rightarrow> Conn" where
  "ensureRoomMembership s circleID =
     (if circleID = [] then s
      else if list_ex (\<lambda>room. room = circleID) (Rooms s) then s
      else s\<lparr>Rooms := Rooms s @ [circleID]\<rparr>)"

text \<open>
  userHasCircleAccess returns its log lines and either an error or whether the user is a
  member or the moderator of the circle.
\<close>

datatype dbError = DatabaseError

definition userHasCircleAccess ::
  "Env \<Rightarrow> Database \<Rightarrow> string \<Rightarrow> string \<Rightarrow> effect list \<times> (dbError + bool)" where
  "userHasCircleAccess env db circleID userID =
     (if failing env userHasCircleAccess_MembershipFindFirst then
        ([Log ''userHasCircleAccess: error checking membership: %v''], Inl DatabaseError)
      else if list_ex (\<lambda>m. cmUserID m = userID \<and> cmCircleID m = circleID) (CircleMembership db)
      then ([], Inr True)
      else if failing env userHasCircleAccess_CircleFindUnique then
        ([Log ''userHasCircleAccess: error loading circle %s: %v''], Inl DatabaseError)
      else
        case find (\<lambda>c. cID c = circleID) (Circle db) of
          None \<Rightarrow> ([Log ''userHasCircleAccess: circle %s not found''], Inr False)
        | Some circle \<Rightarrow> ([], Inr (cModeratorID circle = userID)))"

text \<open>
  \<open>Message.CreateOne\<close> with the sender fetched: the new row, the sender's row and the
  database with the row added; nothing when the call fails.
\<close>

definition createMessage ::
  "Env \<Rightarrow> Database \<Rightarrow> string \<Rightarrow> MessagePayload
     \<Rightarrow> (MessageModel \<times> UserModel \<times> Database) option" where
  "createMessage env db userID payload =
     (if failing env send_message_MessageCreateOne \<or> \<not> circleExists db (CircleID payload)
         \<or> messageExists db (newID env)
      then None
      else
        case find (\<lambda>u. uID u = userID) (User db) of
          None \<Rightarrow> None
        | Some sender \<Rightarrow>
            Some (\<lparr>msgID = newID env, msgCircleID = CircleID payload, msgSenderID = userID,
                    msgContent = Content payload,
                    msgImageURL = (if ImageURL payload \<noteq> [] then Some (ImageURL payload) else None),
                    msgCreatedAt = now env\<rparr>,
                  sender,
                  db\<lparr>Message := Message db @
                       [\<lparr>msgID = newID env, msgCircleID = CircleID payload, msgSenderID = userID,
                         msgContent = Content payload,
                         msgImageURL =
                           (if ImageURL payload \<noteq> [] then Some (ImageURL payload) else None),
                         msgCreatedAt = now env\<rparr>]\<rparr>))"

text \<open>
  The rest of send_message once the message is stored: the sender's own read receipt, whose
  failure is logged and not returned, then the broadcast.
\<close>

definition broadcastNewMessage ::
  "Env \<Rightarrow> string \<Rightarrow> MessagePayload \<Rightarrow> MessageModel \<Rightarrow> UserModel \<Rightarrow> Database
     \<Rightarrow> effect list \<times> Database" where
  "broadcastNewMessage env userID payload message sender db =
     ((if failing env send_message_MessageReadCreateOne
          \<or> \<not> messageExists db (msgID message) \<or> \<not> userExists db userID
       then [Log ''Failed to create read receipt for sender: %v''] else [])
      @ [Log ''Message %s created by user %s in circle %s'',
         BroadcastToRoom (CircleID payload) ''new_message''
           (NewMessage
              \<lparr>respID = msgID message, respCircleID = msgCircleID message,
               respSenderID = uID sender, respSenderName = uFullName sender,
               respSenderAvatar = uProfilePicture sender, respContent = msgContent message,
               respImageURL = msgImageURL message, respCreatedAt = msgCreatedAt message,
               respReadBy = [userID]\<rparr>)],
      (if failing env send_message_MessageReadCreateOne
          \<or> \<not> messageExists db (msgID message) \<or> \<not> userExists db userID
       then db
       else db\<lparr>MessageRead := MessageRead db @
                  [\<lparr>mrMessageID = msgID message, mrUserID = userID\<rparr>]\<rparr>))"

definition send_message ::
  "Env \<Rightarrow> Database \<Rightarrow> Conn \<Rightarrow> MessagePayload option \<Rightarrow> effect list \<times> Database \<times> Conn" where
  "send_message env db s data =
     (case getUserIDFromConn s of
        None \<Rightarrow>
          ([Log ''Unauthorized message send attempt from socket %s'',
            Emit ''message_error'' ''Not authenticated''], db, s)
      | Some userID \<Rightarrow>
          (case data of
             None \<Rightarrow>
               ([Log ''Invalid message payload: %v'',
                 Emit ''message_error'' ''Invalid message format''], db, s)
           | Some raw \<Rightarrow>
               (let payload = raw\<lparr>Content := TrimSpace (Content raw)\<rparr> in
                if CircleID payload = [] \<or> Content payload = [] then
                  ([Log ''Invalid message payload from user %s: missing circle or content'',
                    Emit ''message_error'' ''Circle and message content are required''], db, s)
                else
                  case userHasCircleAccess env db (CircleID payload) userID of
                    (logs, Inl err) \<Rightarrow>
                      (logs @ [Log ''Failed to verify circle access for user %s: %v'',
                               Emit ''message_error'' ''Server error''], db, s)
                  | (logs, Inr allowed) \<Rightarrow>
                      if \<not> allowed then
                        (logs @ [Log ''User %s not authorized to send to circle %s'',
                                 Emit ''message_error'' ''Not authorized to send to this circle''],
                         db, s)
                      else
                        (case createMessage env db userID payload of
                           None \<Rightarrow>
                             (logs @ [Log ''User %s sending message to circle %s'',
                                      Log ''Failed to create message: %v'',
                                      Emit ''message_error'' ''Failed to send message''],
                              db, ensureRoomMembership s (CircleID payload))
                         | Some (message, sender, db1) \<Rightarrow>
                             (logs @ [Log ''User %s sending message to circle %s'']
                                @ fst (broadcastNewMessage env userID payload message sender db1),
                              snd (broadcastNewMessage env userID payload message sender db1),
                              ensureRoomMembership s (CircleID payload))))))"

text \<open>
  mark_read never emits an error: every failure ends the handler after a log line. The
  error of the lookup of an existing receipt is dropped in the source, so a failed lookup
  counts as no receipt found.
\<close>

definition mark_read ::
  "Env \<Rightarrow> Database \<Rightarrow> Conn \<Rightarrow> ReadReceiptPayload option \<Rightarrow> effect list \<times> Database" where
  "mark_read env db s data =
     (case getUserIDFromConn s of
        None \<Rightarrow> ([Log ''Unauthorized read receipt from socket %s''], db)
      | Some userID \<Rightarrow>
          (case data of
             None \<Rightarrow> ([Log ''Invalid read receipt payload: %v''], db)
           | Some payload \<Rightarrow>
               if rrCircleID payload = [] \<or> rrMessageID payload = [] then
                 ([Log ''Read receipt missing identifiers from user %s''], db)
               else
                 case userHasCircleAccess env db (rrCircleID payload) userID of
                   (logs, Inl err) \<Rightarrow>
                     (logs @ [Log ''Failed to verify circle access for user %s: %v''], db)
                 | (logs, Inr allowed) \<Rightarrow>
                     if \<not> allowed then
                       (logs @ [Log ''User %s not authorized to mark messages in circle %s''], db)
                     else if \<not> failing env mark_read_MessageReadFindFirst
                             \<and> list_ex (\<lambda>r. mrMessageID r = rrMessageID payload \<and> mrUserID r = userID)
                                   (MessageRead db)
                     then (logs @ [Log ''User %s marking message %s as read in circle %s''], db)
                     else if failing env mark_read_MessageReadCreateOne
                             \<or> \<not> messageExists db (rrMessageID payload) \<or> \<not> userExists db userID
                     then
                       (logs @ [Log ''User %s marking message %s as read in circle %s'',
                                Log ''Failed to create read receipt: %v''], db)
                     else if failing env mark_read_MessageReadFindMany then
                       (logs @ [Log ''User %s marking message %s as read in circle %s'',
                                Log ''Failed to fetch read receipts: %v''],
                        db\<lparr>MessageRead := MessageRead db @
                             [\<lparr>mrMessageID = rrMessageID payload, mrUserID = userID\<rparr>]\<rparr>)
                     else
                       (logs @ [Log ''User %s marking message %s as read in circle %s'',
                                Log ''Message %s marked as read by user %s'',
                                BroadcastToRoom (rrCircleID payload) ''message_read''
                                  (MessageReadUpdate (rrMessageID payload) userID
                                     (map mrUserID
                                        (filter (\<lambda>r. mrMessageID r = rrMessageID payload)
                                           (MessageRead db @
                                              [\<lparr>mrMessageID = rrMessageID payload,
                                                mrUserID = userID\<rparr>]))))],
                        db\<lparr>MessageRead := MessageRead db @
                             [\<lparr>mrMessageID = rrMessageID payload, mrUserID = userID\<rparr>]\<rparr>)))"

section \<open>Predicates of the statements\<close>

text \<open>
  The escalation flag of a result agrees with the severities of its matches.
\<close>

definition escalationConsistent :: "SafetyResult \<Rightarrow> bool" where
  "escalationConsistent r = (RequiresEscalation r = list_ex (\<lambda>m. Severity m = ''critical'') (Matches r))"

text \<open>
  A span that lies within \<open>n\<close> positions, the positions of a span, and a span that some
  merged range contains.
\<close>

definition spanOK :: "nat \<Rightarrow> matchPos \<Rightarrow> bool" where
  "spanOK n m = (mstart m \<le> mend m \<and> mend m \<le> n)"

definition inSpan :: "matchPos \<Rightarrow> nat \<Rightarrow> bool" where
  "inSpan m i = (mstart m \<le> i \<and> i < mend m)"

definition covered :: "matchPos list \<Rightarrow> matchPos \<Rightarrow> bool" where
  "covered merged m = list_ex (\<lambda>g. mstart g \<le> mstart m \<and> mend m \<le> mend g) merged"

text \<open>
  A text of ASCII bytes only, where byte offsets and rune offsets agree; and the contract of
  the regular expression engine: every match it reports for a rule of the table is a span
  of the content, in byte offsets.
\<close>

definition isASCII :: "string \<Rightarrow> bool" where
  "isASCII s = list_all (\<lambda>c. (of_char c :: nat) < 0x80) s"

definition spansInBounds :: "finder \<Rightarrow> string \<Rightarrow> bool" where
  "spansInBounds findAll content =
     list_all (\<lambda>p. list_all (\<lambda>m. fst m \<le> snd m \<and> snd m \<le> length content)
                       (findAll (Pattern p) content)) safetyPatterns"

text \<open>
  A rune of an ASCII text or the mask rune; and the agreement between the matches of a
  result and the positions kept for masking during the scan of a content.
\<close>

definition plainOrMask :: "rune \<Rightarrow> bool" where
  "plainOrMask r = (r < 0x80 \<or> r = maskRune)"

definition linked :: "string \<Rightarrow> SafetyResult \<times> matchPos list \<Rightarrow> bool" where
  "linked content acc =
     (map (\<lambda>m. (Start m, End m)) (Matches (fst acc)) = map (\<lambda>m. (mstart m, mend m)) (snd acc)
      \<and> Flagged (fst acc) = (snd acc \<noteq> [])
      \<and> MaskedContent (fst acc) = content)"

text \<open>
  An answer of the regular expression engine for one content: rule \<open>n\<close> matches at the
  spans \<open>ms\<close> and no other rule matches.
\<close>

definition onlyRule :: "nat \<Rightarrow> (nat \<times> nat) list \<Rightarrow> finder" where
  "onlyRule n ms = (\<lambda>k content. if k = n then ms else [])"

text \<open>
  Every active circle holds at most as many members as its capacity; and the database
  after a user joined a circle that is then full.
\<close>

definition capacityRespected :: "Database \<Rightarrow> bool" where
  "capacityRespected db =
     list_all (\<lambda>c. cStatus c = CircleStatusActive \<longrightarrow>
                     int (length (membershipsOf db (cID c))) \<le> cMaxMembers c) (Circle db)"

definition fillCircle :: "Database \<Rightarrow> string \<Rightarrow> string \<Rightarrow> Database" where
  "fillCircle db circleID userID =
     db\<lparr>CircleMembership := CircleMembership db @ [\<lparr>cmCircleID = circleID, cmUserID = userID\<rparr>],
        Circle := map (\<lambda>c. if cID c = circleID then c\<lparr>cStatus := CircleStatusFull\<rparr> else c)
                    (Circle db)\<rparr>"

text \<open>
  The integrity the database maintains: circle identifiers are unique, and every membership
  belongs to an existing circle.
\<close>

definition wellFormed :: "Database \<Rightarrow> bool" where
  "wellFormed db =
     (distinct (map cID (Circle db))
      \<and> list_all (\<lambda>m. circleExists db (cmCircleID m)) (CircleMembership db))"

text \<open>A log line, as opposed to an event that reaches a client.\<close>

definition isLog :: "effect \<Rightarrow> bool" where
  "isLog e = (case e of Log line \<Rightarrow> True | Emit ev msg \<Rightarrow> False | BroadcastToRoom room ev d \<Rightarrow> False)"

section \<open>An example database\<close>

text \<open>
  One study circle of capacity 3 with the members u1 and u2, its moderator mod1, a user u3
  without a circle, and one message of u1 that u1 has read. The environment says which
  calls fail and which identifier the next created row receives.
\<close>

definition exampleCircle :: CircleModel where
  "exampleCircle =
     \<lparr>cID = ''c1'', cName = ''Study Circle #1'', cCategory = CircleCategoryAcademicStress,
      cStatus = CircleStatusActive, cModeratorID = ''mod1'', cMaxMembers = 3\<rparr>"

definition exampleUser :: "string \<Rightarrow> UserRole \<Rightarrow> UserModel" where
  "exampleUser userID role =
     \<lparr>uID = userID, uEmail = userID @ ''@example.org'', uFullName = ''User '' @ userID,
      uRole = role, uProfilePicture = None\<rparr>"

definition exampleDB :: Database where
  "exampleDB =
     \<lparr>User = [exampleUser ''mod1'' UserRoleModerator, exampleUser ''u1'' UserRoleUser,
              exampleUser ''u2'' UserRoleUser, exampleUser ''u3'' UserRoleUser],
      Circle = [exampleCircle],
      CircleMembership = [\<lparr>cmCircleID = ''c1'', cmUserID = ''u1''\<rparr>,
                          \<lparr>cmCircleID = ''c1'', cmUserID = ''u2''\<rparr>],
      Message = [\<lparr>msgID = ''m1'', msgCircleID = ''c1'', msgSenderID = ''u1'',
                   msgContent = ''I feel okay today'', msgImageURL = None,
                   msgCreatedAt = ''2025-01-01T09:00:00Z''\<rparr>],
      MessageRead = [\<lparr>mrMessageID = ''m1'', mrUserID = ''u1''\<rparr>]\<rparr>"

text \<open>
  An excerpt of the case table of the Go library, for the examples: the capital letters of
  Latin-1 (U+00C0 to U+00DE without the multiplication sign U+00D7) lie 32 below their small
  letters, and the lower case of U+0130 is the letter \<open>i\<close>. The examples consult no
  other entry.
\<close>

definition exampleCaseTable :: "rune \<Rightarrow> rune" where
  "exampleCaseTable r =
     (if r = 0x130 then 0x69
      else if 0xC0 \<le> r \<and> r \<le> 0xDE \<and> r \<noteq> 0xD7 then r + 0x20
      else r)"

definition exampleEnv :: "(dbCall \<Rightarrow> bool) \<Rightarrow> string \<Rightarrow> Env" where
  "exampleEnv fails ident =
     \<lparr>failing = fails, newID = ident, now = ''2025-01-01T10:00:00Z'', defaultMaxMembers = 6,
      caseTable = exampleCaseTable\<rparr>"

section \<open>Properties of the category and risk functions\<close>

lemma anyTopicMatches_member:
  "topic \<in> set topics \<Longrightarrow> containsAnyKeyword kws topic \<Longrightarrow> anyTopicMatches kws topics"
  by (induction topics) auto

lemma containsAnyKeyword_member:
  "keyword \<in> set kws \<Longrightarrow> Contains topic keyword \<Longrightarrow> containsAnyKeyword kws topic"
  by (induction kws) auto

lemma lowerByte_no_capital:
  "\<not> list_ex (\<lambda>c. 65 \<le> (of_char c :: nat) \<and> (of_char c :: nat) \<le> 90) s \<Longrightarrow> map lowerByte s = s"
  by (induction s) (auto simp: lowerByte_def)

text \<open>
  On a string of ASCII bytes \<open>strings.ToLower\<close> does not consult the case table: the
  result is the string with its capital letters lowercased, for every table.
\<close>

lemma ToLower_ascii:
  "list_all (\<lambda>c. (of_char c :: nat) < 0x80) s \<Longrightarrow> ToLower table s = map lowerByte s"
  by (simp add: ToLower_def lowerByte_no_capital)

lemma DetermineCircleCategory_suicidal_thoughts_any_table:
  "DetermineCircleCategory table [''suicidal thoughts''] = CircleCategoryGeneralSupport"
  by (simp add: DetermineCircleCategory_def ToLower_def lowerByte_def crisisKeywords_def
      anxietyDepKeywords_def academicKeywords_def socialKeywords_def)

text \<open>
  C1 (as stated, refuted). The topic \<open>suicidal thoughts\<close> contains none of the crisis
  keywords \<open>self\<close>, \<open>harm\<close>, \<open>suicide\<close>, \<open>hopeless\<close> (\<open>suicidal\<close> departs from
  \<open>suicide\<close> at its seventh letter) and no keyword of the other lists, so on its own it
  is assigned to general support, not to crisis. The topic is ASCII text, so the case table
  plays no part (the lemma before this one gives the same result for every table).
\<close>

theorem DetermineCircleCategory_suicidal_thoughts_not_crisis:
  "DetermineCircleCategory exampleCaseTable [''suicidal thoughts''] = CircleCategoryGeneralSupport
   \<and> DetermineCircleCategory exampleCaseTable [''suicidal thoughts''] \<noteq> CircleCategoryCrisis"
  by (simp add: DetermineCircleCategory_def ToLower_def lowerByte_def crisisKeywords_def
      anxietyDepKeywords_def academicKeywords_def socialKeywords_def)

text \<open>
  C1 (amended). Whenever some topic of the list, once lowercased by \<open>strings.ToLower\<close>,
  contains one of the crisis keywords as a substring, DetermineCircleCategory returns the
  crisis category, whatever the other topics are: the crisis check runs first and returns
  at once. This holds for every case table, so for the one of the Go library.
\<close>

theorem DetermineCircleCategory_crisis_priority:
  assumes "topic \<in> set topics"
    and "keyword \<in> set crisisKeywords"
    and "Contains (ToLower table topic) keyword"
  shows "DetermineCircleCategory table topics = CircleCategoryCrisis"
proof -
  have "containsAnyKeyword crisisKeywords (ToLower table topic)"
    using assms(2,3) by (rule containsAnyKeyword_member)
  moreover have "ToLower table topic \<in> set (map (ToLower table) topics)"
    using assms(1) by simp
  ultimately have "anyTopicMatches crisisKeywords (map (ToLower table) topics)"
    by (rule anyTopicMatches_member[rotated])
  then show ?thesis
    by (simp add: DetermineCircleCategory_def)
qed

lemmas lower_simps = ToLower_def Map_def unicodeToLower_def lowerByte_def DecodeRune_def
  EncodeRune_def RuneError_def char_of_def bit_Suc_0_iff Let_def

text \<open>
  Two instances: an ASCII topic with a capital letter among other topics, and the topic
  \<open>SU\<close>, U+0130, \<open>C\<close>, U+0130, \<open>DE\<close> (bytes C4 B0 for U+0130), which
  \<open>strings.ToLower\<close> turns into \<open>suicide\<close>.
\<close>

theorem DetermineCircleCategory_crisis_priority_witness:
  "DetermineCircleCategory exampleCaseTable [''Exam stress'', ''Suicide prevention'', ''Anxiety'']
     = CircleCategoryCrisis
   \<and> ToLower exampleCaseTable (''SU'' @ [CHR 0xC4, CHR 0xB0] @ ''C'' @ [CHR 0xC4, CHR 0xB0] @ ''DE'')
     = ''suicide''
   \<and> DetermineCircleCategory exampleCaseTable
       [''Exam stress'', ''SU'' @ [CHR 0xC4, CHR 0xB0] @ ''C'' @ [CHR 0xC4, CHR 0xB0] @ ''DE'']
     = CircleCategoryCrisis"
proof -
  let ?u = "''SU'' @ [CHR 0xC4, CHR 0xB0] @ ''C'' @ [CHR 0xC4, CHR 0xB0] @ ''DE''"
  have t: "''Suicide prevention'' \<in> set [''Exam stress'', ''Suicide prevention'', ''Anxiety'']"
    by simp
  have k: "''suicide'' \<in> set crisisKeywords"
    by (simp add: crisisKeywords_def)
  have c: "Contains (ToLower exampleCaseTable ''Suicide prevention'') ''suicide''"
    by (simp add: lower_simps)
  have low: "ToLower exampleCaseTable ?u = ''suicide''"
    by (simp add: lower_simps exampleCaseTable_def)
  have t': "?u \<in> set [''Exam stress'', ?u]"
    by simp
  have c': "Contains (ToLower exampleCaseTable ?u) ''suicide''"
    unfolding low by simp
  show ?thesis
    using DetermineCircleCategory_crisis_priority [OF t k c]
      DetermineCircleCategory_crisis_priority [OF t' k c'] low
    by (intro conjI)
qed

text \<open>
  The same topic under any case table that, like the one of the Go library, gives U+0130
  the lower case \<open>i\<close>.
\<close>

lemma DetermineCircleCategory_dotted_capital_I:
  assumes "table 0x130 = 0x69"
  shows "DetermineCircleCategory table
           [''SU'' @ [CHR 0xC4, CHR 0xB0] @ ''C'' @ [CHR 0xC4, CHR 0xB0] @ ''DE'']
         = CircleCategoryCrisis"
proof -
  have "ToLower table (''SU'' @ [CHR 0xC4, CHR 0xB0] @ ''C'' @ [CHR 0xC4, CHR 0xB0] @ ''DE'')
          = ''suicide''"
    using assms by (simp add: lower_simps)
  then show ?thesis
    by (simp add: DetermineCircleCategory_def crisisKeywords_def)
qed

text \<open>
  C3. IsCriticalRisk is true exactly when both totals are at least 5 or one of them is 6;
  the four values the specification lists follow.
\<close>

theorem IsCriticalRisk_iff:
  "IsCriticalRisk phq2Total gad2Total =
     ((phq2Total \<ge> 5 \<and> gad2Total \<ge> 5) \<or> phq2Total = 6 \<or> gad2Total = 6)
   \<and> IsCriticalRisk 5 5 \<and> IsCriticalRisk 6 0 \<and> IsCriticalRisk 0 6 \<and> \<not> IsCriticalRisk 4 4"
  by (simp add: IsCriticalRisk_def)

text \<open>
  C10. The screening level is decided by the larger of the two totals: high exactly from
  5 up, medium exactly for 3 and 4, low exactly up to 2.
\<close>

theorem computeScreeningLevel_bands:
  "(computeScreeningLevel phq2 gad2 = ScreeningLevelHigh) = (max phq2 gad2 \<ge> 5)
   \<and> (computeScreeningLevel phq2 gad2 = ScreeningLevelMedium) = (3 \<le> max phq2 gad2 \<and> max phq2 gad2 \<le> 4)
   \<and> (computeScreeningLevel phq2 gad2 = ScreeningLevelLow) = (max phq2 gad2 \<le> 2)"
  by (auto simp: computeScreeningLevel_def Let_def max_def)

section \<open>Properties of the safety scanner\<close>

lemma recordMatches_consistent:
  "escalationConsistent (fst acc) \<Longrightarrow> escalationConsistent (fst (recordMatches p c ms acc))"
proof (induction ms arbitrary: acc)
  case Nil
  then show ?case by simp
next
  case (Cons m ms)
  obtain r mp where acc: "acc = (r, mp)" by (cases acc)
  show ?case
    unfolding acc recordMatches.simps
    by (rule Cons.IH) (use Cons.prems in \<open>auto simp: acc escalationConsistent_def\<close>)
qed

lemma checkPatterns_consistent:
  "escalationConsistent (fst acc) \<Longrightarrow> escalationConsistent (fst (checkPatterns f ps c acc))"
proof (induction ps arbitrary: acc)
  case Nil
  then show ?case by simp
next
  case (Cons q ps)
  show ?case
    unfolding checkPatterns.simps
    by (rule Cons.IH) (rule recordMatches_consistent, rule Cons.prems)
qed

lemma recordMatches_escalation_mono:
  "RequiresEscalation (fst acc) \<Longrightarrow> RequiresEscalation (fst (recordMatches p c ms acc))"
proof (induction ms arbitrary: acc)
  case Nil
  then show ?case by simp
next
  case (Cons m ms)
  obtain r mp where acc: "acc = (r, mp)" by (cases acc)
  show ?case
    unfolding acc recordMatches.simps
    by (rule Cons.IH) (use Cons.prems in \<open>auto simp: acc\<close>)
qed

lemma checkPatterns_escalation_mono:
  "RequiresEscalation (fst acc) \<Longrightarrow> RequiresEscalation (fst (checkPatterns f ps c acc))"
proof (induction ps arbitrary: acc)
  case Nil
  then show ?case by simp
next
  case (Cons q ps)
  show ?case
    unfolding checkPatterns.simps
    by (rule Cons.IH) (rule recordMatches_escalation_mono, rule Cons.prems)
qed

lemma recordMatches_critical:
  "ms \<noteq> [] \<Longrightarrow> PatternSeverity p = ''critical'' \<Longrightarrow> RequiresEscalation (fst (recordMatches p c ms acc))"
proof (cases ms)
  case Nil
  assume "ms \<noteq> []" with Nil show ?thesis by simp
next
  case (Cons m ms')
  assume crit: "PatternSeverity p = ''critical''"
  obtain r mp where acc: "acc = (r, mp)" by (cases acc)
  show ?thesis
    unfolding Cons acc recordMatches.simps
    by (rule recordMatches_escalation_mono) (simp add: crit)
qed

lemma checkPatterns_critical:
  "p \<in> set ps \<Longrightarrow> PatternSeverity p = ''critical'' \<Longrightarrow> f (Pattern p) c \<noteq> []
     \<Longrightarrow> RequiresEscalation (fst (checkPatterns f ps c acc))"
proof (induction ps arbitrary: acc)
  case Nil
  then show ?case by simp
next
  case (Cons q ps)
  show ?case
  proof (cases "p = q")
    case True
    have "RequiresEscalation (fst (recordMatches q c (f (Pattern q) c) acc))"
      using Cons.prems True by (auto intro: recordMatches_critical)
    then show ?thesis
      by (simp add: checkPatterns_escalation_mono)
  next
    case False
    then have "p \<in> set ps" using Cons.prems by simp
    then show ?thesis using Cons by simp
  qed
qed

lemma checkPatterns_no_match:
  "\<forall>p\<in>set ps. f (Pattern p) c = [] \<Longrightarrow> checkPatterns f ps c acc = acc"
  by (induction ps arbitrary: acc) auto

lemma sortInner_props:
  "n = length ms \<Longrightarrow> i < n \<Longrightarrow>
     length (sortInner n ms i j) = length ms \<and> set (sortInner n ms i j) = set ms"
proof (induction n ms i j rule: sortInner.induct)
  case (1 n ms i j)
  show ?case
  proof (cases "j < n")
    case False
    then show ?thesis by (subst sortInner.simps, subst (2) sortInner.simps) simp
  next
    case True
    let ?ms' = "if mstart (ms ! j) > mstart (ms ! i) then ms[i := ms ! j, j := ms ! i] else ms"
    have len: "length ?ms' = length ms" by simp
    have st: "set ?ms' = set ms"
      using True 1 by (simp add: set_swap)
    have "length (sortInner n ?ms' i (j + 1)) = length ?ms' \<and> set (sortInner n ?ms' i (j + 1)) = set ?ms'"
      using "1.IH"[OF True] "1.prems" len by simp
    then have "length (sortInner n ?ms' i (j + 1)) = length ms \<and> set (sortInner n ?ms' i (j + 1)) = set ms"
      using len st by simp
    moreover have "sortInner n ms i j = sortInner n ?ms' i (j + 1)"
      using True by (subst sortInner.simps) simp
    ultimately show ?thesis by simp
  qed
qed

lemma sortOuter_props:
  "n = length ms \<Longrightarrow> length (sortOuter n ms i) = length ms \<and> set (sortOuter n ms i) = set ms"
proof (induction n ms i rule: sortOuter.induct)
  case (1 n ms i)
  show ?case
  proof (cases "i < n")
    case False
    then show ?thesis by (subst sortOuter.simps, subst (2) sortOuter.simps) simp
  next
    case True
    let ?ms' = "sortInner n ms i (i + 1)"
    have p: "length ?ms' = length ms \<and> set ?ms' = set ms"
      using sortInner_props[OF "1.prems" True] by simp
    have "length (sortOuter n ?ms' (i + 1)) = length ?ms' \<and> set (sortOuter n ?ms' (i + 1)) = set ?ms'"
      using "1.IH"[OF True] "1.prems" p by simp
    moreover have "sortOuter n ms i = sortOuter n ?ms' (i + 1)"
      using True by (subst sortOuter.simps) simp
    ultimately show ?thesis using p by simp
  qed
qed

lemma set_sortMatches: "set (sortMatches ms) = set ms"
  by (simp add: sortMatches_def sortOuter_props)

lemma length_sortMatches: "length (sortMatches ms) = length ms"
  by (simp add: sortMatches_def sortOuter_props)

lemma mergeStep_snoc:
  "mergeStep (xs @ [l]) c =
     (if mend c \<ge> mstart l then
        xs @ [l\<lparr>mstart := (if mstart c < mstart l then mstart c else mstart l),
                mend := (if mend c > mend l then mend c else mend l),
                mseverity := (if mseverity c = ''critical'' then ''critical'' else mseverity l)\<rparr>]
      else xs @ [l, c])"
  by (simp add: mergeStep_def)

lemma mergeStep_nonempty: "merged \<noteq> [] \<Longrightarrow> mergeStep merged c \<noteq> []"
  by (cases merged rule: rev_cases) (auto simp: mergeStep_snoc)

lemma mergeStep_spanOK:
  "merged \<noteq> [] \<Longrightarrow> list_all (spanOK n) merged \<Longrightarrow> spanOK n c \<Longrightarrow> list_all (spanOK n) (mergeStep merged c)"
  by (cases merged rule: rev_cases) (auto simp: mergeStep_snoc spanOK_def)

lemma mergeStep_covered_old:
  "merged \<noteq> [] \<Longrightarrow> covered merged m \<Longrightarrow> covered (mergeStep merged c) m"
  by (cases merged rule: rev_cases) (auto simp: mergeStep_snoc covered_def list_ex_iff)

lemma mergeStep_covered_new:
  "merged \<noteq> [] \<Longrightarrow> covered (mergeStep merged c) c"
  by (cases merged rule: rev_cases) (auto simp: mergeStep_snoc covered_def list_ex_iff)

lemma mergeLoop_props:
  "merged \<noteq> [] \<Longrightarrow> list_all (spanOK n) merged \<Longrightarrow> list_all (spanOK n) rest \<Longrightarrow>
     list_all (spanOK n) (mergeLoop merged rest)
     \<and> (\<forall>m. covered merged m \<or> m \<in> set rest \<longrightarrow> covered (mergeLoop merged rest) m)"
proof (induction rest arbitrary: merged)
  case Nil
  then show ?case by simp
next
  case (Cons c rest)
  have ne: "mergeStep merged c \<noteq> []"
    using Cons.prems(1) by (rule mergeStep_nonempty)
  have ok: "list_all (spanOK n) (mergeStep merged c)"
    using Cons.prems by (simp add: mergeStep_spanOK)
  have rest: "list_all (spanOK n) rest"
    using Cons.prems(3) by simp
  note ih = Cons.IH[OF ne ok rest]
  show ?case
  proof (intro conjI allI impI)
    show "list_all (spanOK n) (mergeLoop merged (c # rest))"
      using ih by simp
  next
    fix m
    assume "covered merged m \<or> m \<in> set (c # rest)"
    then have "covered (mergeStep merged c) m \<or> m \<in> set rest"
      using mergeStep_covered_old[OF Cons.prems(1)] mergeStep_covered_new[OF Cons.prems(1)]
      by auto
    then show "covered (mergeLoop merged (c # rest)) m"
      using ih by auto
  qed
qed

lemma maskSpan_props:
  assumes "spanOK (length runes) m"
  shows "\<exists>runes'. maskSpan runes m = Inr runes' \<and> length runes' = length runes
           \<and> (\<forall>i < length runes. runes' ! i = (if inSpan m i then maskRune else runes ! i))"
proof -
  let ?r = "take (mstart m) runes @ replicate (mend m - mstart m) maskRune @ drop (mend m) runes"
  have s: "mstart m \<le> mend m" "mend m \<le> length runes"
    using assms by (simp_all add: spanOK_def)
  have eq: "maskSpan runes m = Inr ?r"
    using s by (simp add: maskSpan_def)
  have len: "length ?r = length runes"
    using s by simp
  have nth: "?r ! i = (if inSpan m i then maskRune else runes ! i)" if "i < length runes" for i
    using s that by (auto simp: nth_append inSpan_def min_def)
  show ?thesis
    using eq len nth by blast
qed

lemma maskLoop_props:
  "list_all (spanOK (length runes)) merged \<Longrightarrow>
     \<exists>runes'. maskLoop runes merged = Inr runes' \<and> length runes' = length runes
       \<and> (\<forall>i < length runes.
             runes' ! i = (if list_ex (\<lambda>g. inSpan g i) merged then maskRune else runes ! i))"
proof (induction merged arbitrary: runes)
  case Nil
  then show ?case by simp
next
  case (Cons m merged)
  have okm: "spanOK (length runes) m" using Cons.prems by simp
  obtain r1 where r1: "maskSpan runes m = Inr r1" "length r1 = length runes"
    "\<forall>i < length runes. r1 ! i = (if inSpan m i then maskRune else runes ! i)"
    using maskSpan_props[OF okm] by blast
  have "list_all (spanOK (length r1)) merged"
    using Cons.prems r1(2) by simp
  from Cons.IH[OF this] obtain r2 where r2: "maskLoop r1 merged = Inr r2" "length r2 = length r1"
    "\<forall>i < length r1. r2 ! i = (if list_ex (\<lambda>g. inSpan g i) merged then maskRune else r1 ! i)"
    by blast
  have "maskLoop runes (m # merged) = Inr r2"
    using r1(1) r2(1) by simp
  moreover have "length r2 = length runes"
    using r1(2) r2(2) by simp
  moreover have "\<forall>i < length runes.
      r2 ! i = (if list_ex (\<lambda>g. inSpan g i) (m # merged) then maskRune else runes ! i)"
    using r1(2,3) r2(3) by auto
  ultimately show ?case by blast
qed

lemma decodeChunks_ascii:
  "list_all (\<lambda>b. b < 0x80) bs \<Longrightarrow> map fst (decodeChunks bs) = bs"
  by (induction bs) (auto simp: DecodeRune_def)

lemma runesOf_ascii: "isASCII s \<Longrightarrow> length (runesOf s) = length s"
proof -
  assume "isASCII s"
  then have "list_all (\<lambda>b. b < 0x80) (map of_char s :: nat list)"
    by (simp add: isASCII_def list_all_iff)
  then have "map fst (decodeChunks (map of_char s)) = map of_char s"
    by (rule decodeChunks_ascii)
  then show ?thesis
    by (simp add: runesOf_def)
qed

lemma recordMatches_spans:
  "list_all (spanOK n) (snd acc) \<Longrightarrow> list_all (\<lambda>m. fst m \<le> snd m \<and> snd m \<le> n) ms \<Longrightarrow>
     list_all (spanOK n) (snd (recordMatches p c ms acc))"
proof (induction ms arbitrary: acc)
  case Nil
  then show ?case by simp
next
  case (Cons m ms)
  obtain r mp where acc: "acc = (r, mp)" by (cases acc)
  show ?case
    unfolding acc recordMatches.simps
    by (rule Cons.IH) (use Cons.prems in \<open>auto simp: acc spanOK_def\<close>)
qed

lemma checkPatterns_spans:
  "list_all (spanOK n) (snd acc) \<Longrightarrow>
   list_all (\<lambda>p. list_all (\<lambda>m. fst m \<le> snd m \<and> snd m \<le> n) (f (Pattern p) c)) ps \<Longrightarrow>
     list_all (spanOK n) (snd (checkPatterns f ps c acc))"
proof (induction ps arbitrary: acc)
  case Nil
  then show ?case by simp
next
  case (Cons q ps)
  show ?case
    unfolding checkPatterns.simps
    by (rule Cons.IH) (use Cons.prems in \<open>auto intro: recordMatches_spans\<close>)
qed

lemma sortMatches_cases:
  "matches \<noteq> [] \<Longrightarrow> \<exists>first rest. sortMatches matches = first # rest"
proof -
  assume "matches \<noteq> []"
  then have "length (sortMatches matches) \<noteq> 0"
    by (simp add: length_sortMatches)
  then show ?thesis
    by (cases "sortMatches matches") simp_all
qed

lemma maskContent_no_panic:
  assumes "list_all (spanOK (length (runesOf content))) matches"
  shows "\<exists>masked. maskContent content matches = Inr masked"
proof (cases "matches = []")
  case True
  then show ?thesis by (simp add: maskContent_def)
next
  case False
  then obtain first rest where Cons: "sortMatches matches = first # rest"
    using sortMatches_cases by blast
  let ?n = "length (runesOf content)"
  have "list_all (spanOK ?n) (sortMatches matches)"
    using assms by (simp add: list_all_iff set_sortMatches)
  then have f: "list_all (spanOK ?n) [first]" and r: "list_all (spanOK ?n) rest"
    by (simp_all add: Cons)
  have "list_all (spanOK ?n) (mergeLoop [first] rest)"
    using mergeLoop_props[OF _ f r] by simp
  from maskLoop_props[OF this] obtain runes' where
    "maskLoop (runesOf content) (mergeLoop [first] rest) = Inr runes'"
    by blast
  then show ?thesis
    using False by (simp add: maskContent_def Cons)
qed

lemma CheckContent_cases:
  assumes "CheckContent findAll content = Inr result"
  shows "(TrimSpace content = [] \<and> result = \<lparr>Flagged = False, MaskedContent = content, Matches = [], RequiresEscalation = False\<rparr>)
       \<or> (TrimSpace content \<noteq> [] \<and> (\<exists>masked. result =
            (fst (checkPatterns findAll safetyPatterns content
               (\<lparr>Flagged = False, MaskedContent = content, Matches = [], RequiresEscalation = False\<rparr>, [])))
            \<lparr>MaskedContent := masked\<rparr>))"
proof (cases "TrimSpace content = []")
  case True
  then show ?thesis using assms by (simp add: CheckContent_def)
next
  case False
  obtain r mp where scan: "checkPatterns findAll safetyPatterns content
      (\<lparr>Flagged = False, MaskedContent = content, Matches = [], RequiresEscalation = False\<rparr>, []) = (r, mp)"
    by (cases "checkPatterns findAll safetyPatterns content
      (\<lparr>Flagged = False, MaskedContent = content, Matches = [], RequiresEscalation = False\<rparr>, [])")
  show ?thesis
  proof (cases "Flagged r")
    case True
    then obtain masked where "result = r\<lparr>MaskedContent := masked\<rparr>"
      using assms False scan by (auto simp: CheckContent_def split: sum.splits)
    then show ?thesis using False scan by auto
  next
    case nf: False
    then have "result = r"
      using assms False scan by (simp add: CheckContent_def)
    moreover have "\<exists>masked. r = r\<lparr>MaskedContent := masked\<rparr>"
      by (rule exI[of _ "MaskedContent r"]) simp
    ultimately show ?thesis using False scan by simp
  qed
qed

subsection \<open>The escalation flag of a returned result\<close>

text \<open>
  Whenever CheckContent returns a result, its RequiresEscalation field is true exactly
  when one of the reported matches has severity \<open>critical\<close>, and a text that is not
  blank and that a critical rule of the table matches then has RequiresEscalation = true.
  A result is returned for every ASCII text (the engine reporting spans of the content).
  On other texts the masking can panic, and then nothing is returned.
\<close>

lemma CheckContent_RequiresEscalation_iff:
  "(CheckContent findAll content = Inr result \<longrightarrow>
      RequiresEscalation result = (\<exists>m\<in>set (Matches result). Severity m = ''critical''))
   \<and> (CheckContent findAll content = Inr result \<and> TrimSpace content \<noteq> []
        \<and> pattern \<in> set safetyPatterns \<and> PatternSeverity pattern = ''critical''
        \<and> findAll (Pattern pattern) content \<noteq> [] \<longrightarrow> RequiresEscalation result)
   \<and> (isASCII content \<and> spansInBounds findAll content \<longrightarrow>
        (\<exists>r. CheckContent findAll content = Inr r))"
proof (intro conjI impI)
  let ?init = "\<lparr>Flagged = False, MaskedContent = content, Matches = [], RequiresEscalation = False\<rparr>"
  let ?scan = "checkPatterns findAll safetyPatterns content (?init, [])"
  have cons: "escalationConsistent (fst ?scan)"
    by (rule checkPatterns_consistent) (simp add: escalationConsistent_def)
  {
    assume "CheckContent findAll content = Inr result"
    from CheckContent_cases[OF this] obtain masked where
      "result = ?init \<or> result = (fst ?scan)\<lparr>MaskedContent := masked\<rparr>"
      by auto
    then show "RequiresEscalation result = (\<exists>m\<in>set (Matches result). Severity m = ''critical'')"
      using cons by (auto simp: escalationConsistent_def list_ex_iff)
  }
  {
    assume a: "CheckContent findAll content = Inr result \<and> TrimSpace content \<noteq> []
        \<and> pattern \<in> set safetyPatterns \<and> PatternSeverity pattern = ''critical''
        \<and> findAll (Pattern pattern) content \<noteq> []"
    from CheckContent_cases[of findAll content result] a obtain masked where
      "result = (fst ?scan)\<lparr>MaskedContent := masked\<rparr>"
      by auto
    moreover have "RequiresEscalation (fst ?scan)"
      using a by (intro checkPatterns_critical[of pattern]) simp_all
    ultimately show "RequiresEscalation result" by simp
  }
  {
    assume a: "isASCII content \<and> spansInBounds findAll content"
    then have len: "length (runesOf content) = length content"
      by (simp add: runesOf_ascii)
    have "list_all (spanOK (length content)) (snd ?scan)"
      using a by (intro checkPatterns_spans) (simp_all add: spansInBounds_def)
    then have "\<exists>masked. maskContent content (snd ?scan) = Inr masked"
      using len by (intro maskContent_no_panic) simp
    then show "\<exists>r. CheckContent findAll content = Inr r"
      by (auto simp: CheckContent_def Let_def split: prod.splits sum.splits)
  }
qed

lemmas eval_simps = CheckContent_def maskContent_def sortMatches_def sortInner.simps sortOuter.simps
  mergeStep_def maskSpan_def runesOf_def DecodeRune_def TrimSpace_def IsSpace_def onlyRule_def
  safetyPatterns_def safetyRule_def char_of_def bit_Suc_0_iff Let_def stringOfRunes_def
  EncodeRune_def maskRune_def RuneError_def map_concat map_replicate

lemma CheckContent_RequiresEscalation_iff_witness:
  "isASCII ''I feel suicidal''
   \<and> spansInBounds (onlyRule 0 [(7, 15)]) ''I feel suicidal''
   \<and> CheckContent (onlyRule 0 [(7, 15)]) ''I feel suicidal'' =
       Inr \<lparr>Flagged = True,
            MaskedContent = ''I feel '' @ concat (replicate 8 [CHR 0xE2, CHR 0x96, CHR 0xAE]),
            Matches = [\<lparr>Category = SafetyCategorySelfHarm, Severity = ''critical'',
                        MatchedText = ''suicidal'', Start = 7, End = 15\<rparr>],
            RequiresEscalation = True\<rparr>
   \<and> (\<exists>r. CheckContent (onlyRule 0 [(7, 15)]) ''I feel suicidal'' = Inr r \<and> RequiresEscalation r
          \<and> RequiresEscalation r = (\<exists>m\<in>set (Matches r). Severity m = ''critical''))"
proof -
  let ?f = "onlyRule 0 [(7, 15)]"
  let ?c = "''I feel suicidal''"
  let ?p = "safetyRule 0 SafetyCategorySelfHarm ''critical''"
  let ?R = "\<lparr>Flagged = True,
            MaskedContent = ''I feel '' @ concat (replicate 8 [CHR 0xE2, CHR 0x96, CHR 0xAE]),
            Matches = [\<lparr>Category = SafetyCategorySelfHarm, Severity = ''critical'',
                        MatchedText = ''suicidal'', Start = 7, End = 15\<rparr>],
            RequiresEscalation = True\<rparr>"
  have ascii: "isASCII ?c" by (simp add: isASCII_def)
  have bounds: "spansInBounds ?f ?c" by (simp add: spansInBounds_def eval_simps)
  have run: "CheckContent ?f ?c = Inr ?R" by (simp add: eval_simps)
  have nonblank: "TrimSpace ?c \<noteq> []" by (simp add: eval_simps)
  have inTable: "?p \<in> set safetyPatterns" by (simp add: safetyPatterns_def)
  have crit: "PatternSeverity ?p = ''critical''" by (simp add: safetyRule_def)
  have found: "?f (Pattern ?p) ?c \<noteq> []" by (simp add: onlyRule_def safetyRule_def)
  note inst = CheckContent_RequiresEscalation_iff [of ?f ?c ?R ?p]
  have iff: "RequiresEscalation ?R = (\<exists>m\<in>set (Matches ?R). Severity m = ''critical'')"
    using inst run by blast
  have esc: "RequiresEscalation ?R"
    using inst run nonblank inTable crit found by blast
  have total: "\<exists>r. CheckContent ?f ?c = Inr r"
    using inst ascii bounds by blast
  show ?thesis
    using ascii bounds run iff esc by blast
qed

text \<open>
  C6. A text that no rule of the table matches yields the unflagged result: Flagged =
  false, MaskedContent equal to the text, no matches, RequiresEscalation = false. An empty
  or white-space-only text yields the same result at once, whatever the rules would match.
\<close>

theorem CheckContent_unflagged:
  "((\<forall>p\<in>set safetyPatterns. findAll (Pattern p) content = []) \<longrightarrow>
      CheckContent findAll content =
        Inr \<lparr>Flagged = False, MaskedContent = content, Matches = [], RequiresEscalation = False\<rparr>)
   \<and> (TrimSpace content = [] \<longrightarrow>
      CheckContent findAll content =
        Inr \<lparr>Flagged = False, MaskedContent = content, Matches = [], RequiresEscalation = False\<rparr>)"
  by (auto simp: CheckContent_def Let_def checkPatterns_no_match)

theorem CheckContent_unflagged_witness:
  "CheckContent (\<lambda>n content. []) ''I feel okay today'' =
     Inr \<lparr>Flagged = False, MaskedContent = ''I feel okay today'', Matches = [],
          RequiresEscalation = False\<rparr>
   \<and> TrimSpace [CHR '' '', CHR 0x09, CHR 0x0A] = []
   \<and> CheckContent (onlyRule 0 [(0, 1)]) [CHR '' '', CHR 0x09, CHR 0x0A] =
     Inr \<lparr>Flagged = False, MaskedContent = [CHR '' '', CHR 0x09, CHR 0x0A], Matches = [],
          RequiresEscalation = False\<rparr>
   \<and> CheckContent (onlyRule 0 [(0, 1)]) [] =
     Inr \<lparr>Flagged = False, MaskedContent = [], Matches = [], RequiresEscalation = False\<rparr>"
proof -
  have none: "\<forall>p\<in>set safetyPatterns. (\<lambda>n content. []) (Pattern p) ''I feel okay today'' = []"
    by simp
  have blank: "TrimSpace [CHR '' '', CHR 0x09, CHR 0x0A] = []" by (simp add: eval_simps)
  have empty: "TrimSpace [] = []" by (simp add: eval_simps)
  show ?thesis
    using CheckContent_unflagged [of "\<lambda>n content. []" "''I feel okay today''"]
      CheckContent_unflagged [of "onlyRule 0 [(0, 1)]" "[CHR '' '', CHR 0x09, CHR 0x0A]"]
      CheckContent_unflagged [of "onlyRule 0 [(0, 1)]" "[]"]
      none blank empty
    by blast
qed

text \<open>
  C2 (the code departs from the claim on multi-byte text). The matches are reported in
  byte offsets, and maskContent uses them as indices into the runes. For the two-byte
  letter U+00E9 twice, then \<open> suicide now!\<close>, rule 0 matches \<open>suicide\<close> at the
  bytes 5 to 12; the runes 5 to 12 are \<open>icide n\<close>, so the result keeps the letters
  \<open>su\<close> of the match and masks \<open> n\<close> after it. For U+00E9, then
  \<open> suicide\<close>, the match ends at byte 10 and the text has 9 runes: the slice
  expression panics and no result is returned.
\<close>

theorem CheckContent_multibyte_offsets:
  "CheckContent (onlyRule 0 [(5, 12)]) ([CHR 0xC3, CHR 0xA9, CHR 0xC3, CHR 0xA9] @ '' suicide now!'') =
     Inr \<lparr>Flagged = True,
          MaskedContent = [CHR 0xC3, CHR 0xA9, CHR 0xC3, CHR 0xA9] @ '' su''
            @ concat (replicate 7 [CHR 0xE2, CHR 0x96, CHR 0xAE]) @ ''ow!'',
          Matches = [\<lparr>Category = SafetyCategorySelfHarm, Severity = ''critical'',
                      MatchedText = ''suicide'', Start = 5, End = 12\<rparr>],
          RequiresEscalation = True\<rparr>
   \<and> CheckContent (onlyRule 0 [(3, 10)]) ([CHR 0xC3, CHR 0xA9] @ '' suicide'') =
     Inl SliceBoundsOutOfRange"
  by (simp add: eval_simps)

text \<open>
  C5 (the code departs from the claim on multi-byte text). The scan sets
  RequiresEscalation at a critical match, but the result is handed back only after
  maskContent, which uses the byte offsets of the matches as indices into the runes (the
  defect shown for C2). For the text \<open>so tired\<close>, U+2026 (the ellipsis, three bytes),
  \<open> I want to die\<close>, rule 0, a critical rule, matches \<open>want to die\<close> at the bytes
  14 to 25. The scan records the match and sets the flag; the text has 23 runes, so the
  slice expression \<open>runes[25:]\<close> panics and CheckContent returns no result. The text
  holds a critical match, and no result with RequiresEscalation = true comes out of it.
\<close>

theorem CheckContent_critical_match_no_result:
  "PatternSeverity (safetyPatterns ! 0) = ''critical''
   \<and> fst (checkPatterns (onlyRule 0 [(14, 25)]) safetyPatterns
            (''so tired'' @ [CHR 0xE2, CHR 0x80, CHR 0xA6] @ '' I want to die'')
            (\<lparr>Flagged = False,
              MaskedContent = ''so tired'' @ [CHR 0xE2, CHR 0x80, CHR 0xA6] @ '' I want to die'',
              Matches = [], RequiresEscalation = False\<rparr>, [])) =
       \<lparr>Flagged = True,
        MaskedContent = ''so tired'' @ [CHR 0xE2, CHR 0x80, CHR 0xA6] @ '' I want to die'',
        Matches = [\<lparr>Category = SafetyCategorySelfHarm, Severity = ''critical'',
                    MatchedText = ''want to die'', Start = 14, End = 25\<rparr>],
        RequiresEscalation = True\<rparr>
   \<and> length (runesOf (''so tired'' @ [CHR 0xE2, CHR 0x80, CHR 0xA6] @ '' I want to die'')) = 23
   \<and> CheckContent (onlyRule 0 [(14, 25)])
         (''so tired'' @ [CHR 0xE2, CHR 0x80, CHR 0xA6] @ '' I want to die'') =
       Inl SliceBoundsOutOfRange"
  by (simp add: eval_simps)

subsection \<open>Masking on ASCII text\<close>

text \<open>
  On a text of ASCII bytes the byte offsets of the matches are rune offsets. There
  CheckContent returns a result whose masked content has as many runes as the content and
  holds the mask rune at every position of every reported match.
\<close>

lemma EncodeRune_plain: "r < 0x80 \<Longrightarrow> EncodeRune r = [r]"
  by (simp add: EncodeRune_def)

lemma EncodeRune_mask: "EncodeRune maskRune = [0xE2, 0x96, 0xAE]"
  by (simp add: EncodeRune_def maskRune_def)

lemma decodeChunks_plain:
  "r < 0x80 \<Longrightarrow> map fst (decodeChunks (r # rest)) = r # map fst (decodeChunks rest)"
  by (simp add: DecodeRune_def)

lemma decodeChunks_mask:
  "map fst (decodeChunks (0xE2 # 0x96 # 0xAE # rest)) = maskRune # map fst (decodeChunks rest)"
  by (simp add: DecodeRune_def maskRune_def Let_def)

lemma of_char_EncodeRune:
  "plainOrMask r \<Longrightarrow> map ((of_char :: char \<Rightarrow> nat) \<circ> char_of) (EncodeRune r) = EncodeRune r"
  by (auto simp: plainOrMask_def EncodeRune_plain EncodeRune_mask)

lemma runesOf_stringOfRunes:
  "list_all plainOrMask rs \<Longrightarrow> runesOf (stringOfRunes rs) = rs"
proof -
  assume a: "list_all plainOrMask rs"
  have bytes: "map (of_char :: char \<Rightarrow> nat) (stringOfRunes rs) = concat (map EncodeRune rs)"
    using a by (induction rs) (simp_all add: stringOfRunes_def of_char_EncodeRune)
  have "map fst (decodeChunks (concat (map EncodeRune rs))) = rs"
    using a
  proof (induction rs)
    case Nil
    then show ?case by simp
  next
    case (Cons r rs)
    then have ih: "map fst (decodeChunks (concat (map EncodeRune rs))) = rs" by simp
    have "plainOrMask r" using Cons.prems by simp
    then consider "r < 0x80" | "r = maskRune" by (auto simp: plainOrMask_def)
    then show ?case
    proof cases
      case 1
      then show ?thesis using ih by (simp add: EncodeRune_plain decodeChunks_plain del: decodeChunks.simps)
    next
      case 2
      then show ?thesis using ih by (simp add: EncodeRune_mask decodeChunks_mask del: decodeChunks.simps)
    qed
  qed
  then show ?thesis
    by (simp add: runesOf_def bytes)
qed

lemma covered_inSpan:
  "covered merged m \<Longrightarrow> inSpan m i \<Longrightarrow> list_ex (\<lambda>g. inSpan g i) merged"
proof -
  assume "covered merged m" and i: "inSpan m i"
  then obtain g where g: "g \<in> set merged" "mstart g \<le> mstart m" "mend m \<le> mend g"
    by (auto simp: covered_def list_ex_iff)
  have "inSpan g i"
    using g(2,3) i by (simp add: inSpan_def)
  then show ?thesis
    using g(1) by (auto simp: list_ex_iff)
qed

lemma runesOf_plain:
  "isASCII content \<Longrightarrow> list_all plainOrMask (runesOf content) \<and> length (runesOf content) = length content"
proof -
  assume "isASCII content"
  then have a: "list_all (\<lambda>b. b < 0x80) (map of_char content :: nat list)"
    by (simp add: isASCII_def list_all_iff)
  then have "runesOf content = map of_char content"
    unfolding runesOf_def by (rule decodeChunks_ascii)
  then show ?thesis using a by (simp add: list_all_iff plainOrMask_def)
qed

lemma maskContent_ascii:
  assumes ascii: "isASCII content"
    and ne: "matches \<noteq> []"
    and ok: "list_all (spanOK (length content)) matches"
  shows "\<exists>masked. maskContent content matches = Inr masked
           \<and> length (runesOf masked) = length (runesOf content)
           \<and> (\<forall>m\<in>set matches. \<forall>i. inSpan m i \<longrightarrow> runesOf masked ! i = maskRune)"
proof -
  let ?runes = "runesOf content"
  have plain: "list_all plainOrMask ?runes" and len: "length ?runes = length content"
    using runesOf_plain[OF ascii] by simp_all
  obtain first rest where Cons: "sortMatches matches = first # rest"
    using sortMatches_cases[OF ne] by blast
  have "list_all (spanOK (length ?runes)) (sortMatches matches)"
    using ok len by (simp add: list_all_iff set_sortMatches)
  then have f: "list_all (spanOK (length ?runes)) [first]"
    and r: "list_all (spanOK (length ?runes)) rest"
    by (simp_all add: Cons)
  note mp = mergeLoop_props[OF _ f r]
  have mok: "list_all (spanOK (length ?runes)) (mergeLoop [first] rest)"
    using mp by simp
  have cov: "covered (mergeLoop [first] rest) m" if "m \<in> set matches" for m
  proof -
    have "m \<in> set (first # rest)" using that Cons set_sortMatches[of matches] by simp
    moreover have "covered [first] first" by (simp add: covered_def)
    ultimately have "covered [first] m \<or> m \<in> set rest" by auto
    then show ?thesis using mp by blast
  qed
  from maskLoop_props[OF mok] obtain runes' where
    run: "maskLoop ?runes (mergeLoop [first] rest) = Inr runes'"
    and len': "length runes' = length ?runes"
    and nth: "\<forall>i < length ?runes. runes' ! i =
        (if list_ex (\<lambda>g. inSpan g i) (mergeLoop [first] rest) then maskRune else ?runes ! i)"
    by blast
  have plain': "list_all plainOrMask runes'"
    unfolding list_all_length
  proof (intro allI impI)
    fix i assume "i < length runes'"
    then have i: "i < length ?runes" using len' by simp
    then have "plainOrMask (?runes ! i)" using plain by (simp add: list_all_length)
    then show "plainOrMask (runes' ! i)"
      using nth i by (simp add: plainOrMask_def)
  qed
  have same: "runesOf (stringOfRunes runes') = runes'"
    using plain' by (rule runesOf_stringOfRunes)
  have res: "maskContent content matches = Inr (stringOfRunes runes')"
    using ne run by (simp add: maskContent_def Cons)
  have masked: "runes' ! i = maskRune" if "m \<in> set matches" "inSpan m i" for m i
  proof -
    have "spanOK (length ?runes) m"
      using ok len that(1) by (simp add: list_all_iff)
    then have "i < length ?runes"
      using that(2) by (simp add: spanOK_def inSpan_def)
    moreover have "list_ex (\<lambda>g. inSpan g i) (mergeLoop [first] rest)"
      using cov[OF that(1)] that(2) by (rule covered_inSpan)
    ultimately show ?thesis using nth by simp
  qed
  show ?thesis
    using res same len' masked by auto
qed

lemma recordMatches_linked:
  "linked c0 acc \<Longrightarrow> linked c0 (recordMatches p c ms acc)"
proof (induction ms arbitrary: acc)
  case Nil
  then show ?case by simp
next
  case (Cons m ms)
  obtain r mp where acc: "acc = (r, mp)" by (cases acc)
  show ?case
    unfolding acc recordMatches.simps
    by (rule Cons.IH) (use Cons.prems in \<open>simp add: acc linked_def\<close>)
qed

lemma checkPatterns_linked:
  "linked c0 acc \<Longrightarrow> linked c0 (checkPatterns f ps c acc)"
proof (induction ps arbitrary: acc)
  case Nil
  then show ?case by simp
next
  case (Cons q ps)
  show ?case
    unfolding checkPatterns.simps
    by (rule Cons.IH) (rule recordMatches_linked, rule Cons.prems)
qed

lemma CheckContent_ascii_masking:
  assumes ascii: "isASCII content" and bounds: "spansInBounds findAll content"
  shows "\<exists>result. CheckContent findAll content = Inr result
           \<and> length (runesOf (MaskedContent result)) = length (runesOf content)
           \<and> (\<forall>m\<in>set (Matches result). \<forall>i. Start m \<le> i \<and> i < End m \<longrightarrow>
                  runesOf (MaskedContent result) ! i = maskRune)"
proof (cases "TrimSpace content = []")
  case True
  then show ?thesis by (simp add: CheckContent_def)
next
  case False
  let ?init = "\<lparr>Flagged = False, MaskedContent = content, Matches = [], RequiresEscalation = False\<rparr>"
  obtain r ms where scan: "checkPatterns findAll safetyPatterns content (?init, []) = (r, ms)"
    by (cases "checkPatterns findAll safetyPatterns content (?init, [])")
  have "linked content (checkPatterns findAll safetyPatterns content (?init, []))"
    by (rule checkPatterns_linked) (simp add: linked_def)
  then have spans: "map (\<lambda>m. (Start m, End m)) (Matches r) = map (\<lambda>m. (mstart m, mend m)) ms"
    and flag: "Flagged r = (ms \<noteq> [])" and same: "MaskedContent r = content"
    by (simp_all add: scan linked_def)
  have "list_all (spanOK (length content)) (snd (checkPatterns findAll safetyPatterns content (?init, [])))"
    using bounds by (intro checkPatterns_spans) (simp_all add: spansInBounds_def)
  then have ok: "list_all (spanOK (length content)) ms"
    by (simp add: scan)
  show ?thesis
  proof (cases "ms = []")
    case True
    then have "Matches r = []" using spans by simp
    moreover have "CheckContent findAll content = Inr r"
      using False scan flag True by (simp add: CheckContent_def)
    ultimately show ?thesis using same by simp
  next
    case ne: False
    from maskContent_ascii[OF ascii ne ok] obtain masked where
      m: "maskContent content ms = Inr masked"
      "length (runesOf masked) = length (runesOf content)"
      "\<forall>m\<in>set ms. \<forall>i. inSpan m i \<longrightarrow> runesOf masked ! i = maskRune"
      by blast
    have res: "CheckContent findAll content = Inr (r\<lparr>MaskedContent := masked\<rparr>)"
      using False scan flag ne m(1) by (simp add: CheckContent_def)
    have "runesOf masked ! i = maskRune" if "x \<in> set (Matches r)" "Start x \<le> i \<and> i < End x" for x i
    proof -
      have "(Start x, End x) \<in> set (map (\<lambda>m. (Start m, End m)) (Matches r))"
        using that(1) by (simp add: image_iff) blast
      then have "(Start x, End x) \<in> set (map (\<lambda>m. (mstart m, mend m)) ms)"
        by (simp only: spans)
      then obtain mp where "mp \<in> set ms" "mstart mp = Start x" "mend mp = End x"
        by auto
      then show ?thesis
        using m(3) that(2) by (simp add: inSpan_def)
    qed
    then show ?thesis
      using res m(2) by simp
  qed
qed

section \<open>Properties of the circle assignment\<close>

lemmas example_simps = exampleCircle_def exampleUser_def exampleDB_def exampleEnv_def

text \<open>
  C4. When IsCriticalRisk holds for the two totals, MatchUserToCircle returns no circle, the
  critical flag and no error, and the database it returns is the one it received: this
  holds for every environment, also one in which every call of the database fails, so no
  call is made. The caller, SubmitOnboarding, is the one that starts the critical-risk alert.
\<close>

theorem MatchUserToCircle_critical:
  assumes "IsCriticalRisk phq2Total gad2Total"
  shows "MatchUserToCircle env db userID topics phq2Total gad2Total = ((None, True, None), db)
       \<and> SubmitOnboardingMatching env db user topics phq2Total gad2Total =
           ([CriticalRiskAlert (uFullName user) (uEmail user) phq2Total gad2Total topics], db)"
  using assms by (simp add: MatchUserToCircle_def SubmitOnboardingMatching_def)

theorem MatchUserToCircle_critical_witness:
  "IsCriticalRisk 6 0
   \<and> MatchUserToCircle (exampleEnv (\<lambda>call. True) ''c2'') exampleDB ''u3'' [''Anxiety''] 6 0
       = ((None, True, None), exampleDB)
   \<and> SubmitOnboardingMatching (exampleEnv (\<lambda>call. True) ''c2'') exampleDB
         (exampleUser ''u3'' UserRoleUser) [''Anxiety''] 6 0
       = ([CriticalRiskAlert ''User u3'' ''u3@example.org'' 6 0 [''Anxiety'']], exampleDB)"
proof -
  have crit: "IsCriticalRisk 6 0" by (simp add: IsCriticalRisk_def)
  show ?thesis
    using crit MatchUserToCircle_critical [OF crit, of "exampleEnv (\<lambda>call. True) ''c2''" exampleDB
        "''u3''" "[''Anxiety'']" "exampleUser ''u3'' UserRoleUser"]
    by (simp add: exampleUser_def)
qed

lemma filter_only:
  assumes "distinct (map cID cs)" "c \<in> set cs" "P c" "\<forall>x\<in>set cs. P x \<longrightarrow> x = c"
  shows "filter P cs = [c]"
  using assms
proof (induction cs)
  case Nil
  then show ?case by simp
next
  case (Cons a cs)
  have d: "distinct (map cID cs)" and na: "cID a \<notin> cID ` set cs"
    using Cons.prems(1) by simp_all
  have all: "\<forall>x\<in>set cs. P x \<longrightarrow> x = c"
    using Cons.prems(4) by simp
  show ?case
  proof (cases "a = c")
    case True
    have "\<forall>x\<in>set cs. \<not> P x"
    proof
      fix x assume x: "x \<in> set cs"
      show "\<not> P x"
      proof
        assume "P x"
        then have "x = a" using all x True by simp
        then show False using na x by simp
      qed
    qed
    then have "filter P cs = []"
      by (simp add: filter_empty_conv)
    then show ?thesis using True Cons.prems(3) by simp
  next
    case False
    then have npa: "\<not> P a" using Cons.prems(4) by simp
    have "c \<in> set cs" using Cons.prems(2) False by simp
    then have "filter P cs = [c]"
      using Cons.IH d Cons.prems(3) all by blast
    then show ?thesis using npa by simp
  qed
qed

lemma find_distinct:
  "distinct (map cID cs) \<Longrightarrow> c \<in> set cs \<Longrightarrow> find (\<lambda>x. cID x = cID c) cs = Some c"
  by (induction cs) (auto simp: image_iff)

lemma selectModerator_some:
  "selected \<noteq> None \<or> (ms \<noteq> [] \<and> int (length (Circle db)) < minCircles) \<Longrightarrow>
     \<exists>m. selectModerator db ms selected minCircles = Some m \<and> (m \<in> set ms \<or> selected = Some m)"
proof (induction ms arbitrary: selected minCircles)
  case Nil
  then show ?case by auto
next
  case (Cons a ms)
  let ?n = "int (length (filter (\<lambda>c. cModeratorID c = uID a \<and> cStatus c = CircleStatusActive) (Circle db)))"
  show ?case
  proof (cases "?n < minCircles")
    case True
    have "\<exists>m. selectModerator db ms (Some a) ?n = Some m \<and> (m \<in> set ms \<or> Some a = Some m)"
      by (rule Cons.IH) simp
    then show ?thesis using True by auto
  next
    case False
    have le: "?n \<le> int (length (Circle db))" by simp
    then have "selected \<noteq> None" using Cons.prems False by linarith
    then have "\<exists>m. selectModerator db ms selected minCircles = Some m \<and> (m \<in> set ms \<or> selected = Some m)"
      by (intro Cons.IH) simp
    then show ?thesis using False by auto
  qed
qed

lemma filter_category_only:
  assumes dist: "distinct (map cID (Circle db))"
    and c_in: "circle \<in> set (Circle db)"
    and c_cat: "cCategory circle = category"
    and c_act: "cStatus circle = CircleStatusActive"
    and only: "\<forall>c\<in>set (Circle db). cCategory c = category \<and> cStatus c = CircleStatusActive \<longrightarrow> c = circle"
  shows "filter (\<lambda>c. cCategory c = category \<and> cStatus c = CircleStatusActive) (Circle db) = [circle]"
proof (rule filter_only[OF dist c_in])
  show "cCategory circle = category \<and> cStatus circle = CircleStatusActive"
    using c_cat c_act by simp
  show "\<forall>x\<in>set (Circle db). cCategory x = category \<and> cStatus x = CircleStatusActive \<longrightarrow> x = circle"
    by (rule only)
qed

lemma FindOrCreateCircle_selects:
  assumes nofail: "\<not> failing env FindOrCreateCircle_CircleFindMany"
    and f: "filter (\<lambda>c. cCategory c = category \<and> cStatus c = CircleStatusActive) (Circle db) = [circle]"
    and space: "int (length (membershipsOf db (cID circle))) < cMaxMembers circle"
  shows "FindOrCreateCircle env db category = (Inr circle, db)"
  unfolding FindOrCreateCircle_def f
  using nofail space by simp

lemma FindOrCreateCircle_creates:
  assumes nofail: "\<forall>call. \<not> failing env call"
    and none: "filter (\<lambda>c. cCategory c = category \<and> cStatus c = CircleStatusActive) (Circle db) = []"
    and mods: "\<exists>u\<in>set (User db). uRole u = UserRoleModerator"
    and fresh: "\<not> circleExists db (newID env)"
    and small: "int (length (Circle db)) < 2 ^ 63 - 1"
  shows "\<exists>moderator\<in>set (User db). uRole moderator = UserRoleModerator \<and>
      FindOrCreateCircle env db category =
        (Inr \<lparr>cID = newID env, cName = generateCircleName env db category,
              cCategory = category, cStatus = CircleStatusActive,
              cModeratorID = uID moderator, cMaxMembers = defaultMaxMembers env\<rparr>,
         db\<lparr>Circle := Circle db @
              [\<lparr>cID = newID env, cName = generateCircleName env db category,
                cCategory = category, cStatus = CircleStatusActive,
                cModeratorID = uID moderator, cMaxMembers = defaultMaxMembers env\<rparr>]\<rparr>)"
proof -
  let ?ms = "filter (\<lambda>u. uRole u = UserRoleModerator) (User db)"
  have ne: "?ms \<noteq> []"
    using mods by (simp add: filter_empty_conv)
  obtain m where m: "selectModerator db ?ms None (2 ^ 63 - 1) = Some m" "m \<in> set ?ms"
    using selectModerator_some[of None ?ms db "2 ^ 63 - 1"] ne small by auto
  have assign: "assignModeratorRoundRobin env db = Inr (Some m)"
    using nofail ne m(1) by (simp add: assignModeratorRoundRobin_def)
  have mu: "m \<in> set (User db)" and mr: "uRole m = UserRoleModerator"
    using m(2) by simp_all
  have ex: "userExists db (uID m)"
    using mu by (auto simp: userExists_def list_ex_iff)
  have "FindOrCreateCircle env db category =
        (Inr \<lparr>cID = newID env, cName = generateCircleName env db category,
              cCategory = category, cStatus = CircleStatusActive,
              cModeratorID = uID m, cMaxMembers = defaultMaxMembers env\<rparr>,
         db\<lparr>Circle := Circle db @
              [\<lparr>cID = newID env, cName = generateCircleName env db category,
                cCategory = category, cStatus = CircleStatusActive,
                cModeratorID = uID m, cMaxMembers = defaultMaxMembers env\<rparr>]\<rparr>)"
    unfolding FindOrCreateCircle_def none assign
    using nofail fresh ex by simp
  then show ?thesis using mu mr by blast
qed

lemma AddUserToCircle_fills:
  assumes nofail: "\<forall>call. \<not> failing env call"
    and dist: "distinct (map cID (Circle db))"
    and c_in: "circle \<in> set (Circle db)"
    and count: "int (length (membershipsOf db (cID circle))) = cMaxMembers circle - 1"
    and user: "userExists db userID"
    and nomem: "\<not> list_ex (\<lambda>m. cmUserID m = userID) (CircleMembership db)"
  shows "AddUserToCircle env db (cID circle) userID =
      (None, db\<lparr>CircleMembership := CircleMembership db @
                   [\<lparr>cmCircleID = cID circle, cmUserID = userID\<rparr>],
                Circle := map (\<lambda>c. if cID c = cID circle
                                      then c\<lparr>cStatus := CircleStatusFull\<rparr> else c) (Circle db)\<rparr>)"
proof -
  have ex: "circleExists db (cID circle)"
    using c_in by (auto simp: circleExists_def list_ex_iff)
  have f: "find (\<lambda>c. cID c = cID circle) (Circle db) = Some circle"
    using dist c_in by (rule find_distinct)
  have n: "int (length (membershipsOf (db\<lparr>CircleMembership := CircleMembership db @
                   [\<lparr>cmCircleID = cID circle, cmUserID = userID\<rparr>]\<rparr>) (cID circle))) = cMaxMembers circle"
    using count by (simp add: membershipsOf_def)
  show ?thesis
    using nofail ex f n user nomem
    by (simp add: AddUserToCircle_def Let_def)
qed

lemma map_cID_flip:
  "map cID (map (\<lambda>c. if cID c = k then c\<lparr>cStatus := s\<rparr> else c) cs) = map cID cs"
  by (induction cs) auto

lemma fillCircle_fields:
  "Circle (fillCircle db k u) =
     map (\<lambda>c. if cID c = k then c\<lparr>cStatus := CircleStatusFull\<rparr> else c) (Circle db)"
  "CircleMembership (fillCircle db k u) = CircleMembership db @ [\<lparr>cmCircleID = k, cmUserID = u\<rparr>]"
  "User (fillCircle db k u) = User db"
  by (simp_all add: fillCircle_def)

lemma fillCircle_ids: "map cID (Circle (fillCircle db k u)) = map cID (Circle db)"
  unfolding fillCircle_fields by (rule map_cID_flip)

lemma circleExists_ids: "circleExists db k = (k \<in> set (map cID (Circle db)))"
  by (auto simp: circleExists_def list_ex_iff)

lemma fillCircle_circleExists: "circleExists (fillCircle db k u) k' = circleExists db k'"
  by (simp only: circleExists_ids fillCircle_ids)

lemma fillCircle_find:
  assumes "distinct (map cID (Circle db))" "circle \<in> set (Circle db)"
  shows "find (\<lambda>c. cID c = cID circle) (Circle (fillCircle db (cID circle) u))
           = Some (circle\<lparr>cStatus := CircleStatusFull\<rparr>)"
proof -
  have d: "distinct (map cID (Circle (fillCircle db (cID circle) u)))"
    by (simp only: fillCircle_ids assms(1))
  have "circle\<lparr>cStatus := CircleStatusFull\<rparr> \<in> set (Circle (fillCircle db (cID circle) u))"
    unfolding fillCircle_fields set_map using assms(2) by (intro image_eqI[of _ _ circle]) simp_all
  from find_distinct[OF d this] show ?thesis by simp
qed

lemma fillCircle_no_active:
  assumes only: "\<forall>c\<in>set (Circle db). cCategory c = category \<and> cStatus c = CircleStatusActive \<longrightarrow> c = circle"
  shows "filter (\<lambda>c. cCategory c = category \<and> cStatus c = CircleStatusActive)
           (Circle (fillCircle db (cID circle) u)) = []"
proof -
  have "\<not> (cCategory x = category \<and> cStatus x = CircleStatusActive)"
    if "x \<in> set (Circle (fillCircle db (cID circle) u))" for x
  proof -
    from that obtain y where y: "y \<in> set (Circle db)"
      "x = (if cID y = cID circle then y\<lparr>cStatus := CircleStatusFull\<rparr> else y)"
      unfolding fillCircle_fields set_map by blast
    show ?thesis
    proof (cases "cID y = cID circle")
      case True
      then show ?thesis using y(2) by simp
    next
      case False
      then have "x = y" using y(2) by simp
      moreover have "y \<noteq> circle" using False by blast
      ultimately show ?thesis using only y(1) by blast
    qed
  qed
  then show ?thesis by (simp only: filter_empty_conv) blast
qed

lemma fillCircle_count:
  "int (length (membershipsOf db k)) = n - 1 \<Longrightarrow> int (length (membershipsOf (fillCircle db k u) k)) = n"
  by (simp add: membershipsOf_def fillCircle_fields)

lemma fillCircle_capacity:
  assumes "capacityRespected db"
  shows "capacityRespected (fillCircle db k u)"
proof -
  have "cStatus x = CircleStatusActive \<longrightarrow>
          int (length (membershipsOf (fillCircle db k u) (cID x))) \<le> cMaxMembers x"
    if "x \<in> set (Circle (fillCircle db k u))" for x
  proof -
    from that obtain y where y: "y \<in> set (Circle db)"
      "x = (if cID y = k then y\<lparr>cStatus := CircleStatusFull\<rparr> else y)"
      unfolding fillCircle_fields set_map by blast
    show ?thesis
    proof (cases "cID y = k")
      case True
      then show ?thesis using y(2) by simp
    next
      case False
      then have xy: "x = y" using y(2) by simp
      have "cStatus y = CircleStatusActive \<longrightarrow>
            int (length (membershipsOf db (cID y))) \<le> cMaxMembers y"
        using assms y(1) by (simp add: capacityRespected_def list_all_iff)
      moreover have "membershipsOf (fillCircle db k u) (cID y) = membershipsOf db (cID y)"
        using False by (simp add: membershipsOf_def fillCircle_fields)
      ultimately show ?thesis using xy by simp
    qed
  qed
  then show ?thesis
    by (simp only: capacityRespected_def list_all_iff) blast
qed

lemma new_circle_capacity:
  assumes "capacityRespected db" "membershipsOf db (cID c2) = []" "0 \<le> cMaxMembers c2"
  shows "capacityRespected (db\<lparr>Circle := Circle db @ [c2]\<rparr>)"
  using assms by (simp add: capacityRespected_def list_all_iff membershipsOf_def)

lemma new_circle_no_members:
  assumes fk: "\<forall>m\<in>set (CircleMembership db). circleExists db (cmCircleID m)"
    and fresh: "\<not> circleExists db k'" and ex: "circleExists db k"
  shows "membershipsOf (fillCircle db k u) k' = []"
proof -
  have "\<forall>m\<in>set (CircleMembership db). cmCircleID m \<noteq> k'"
    using fk fresh by blast
  then have "filter (\<lambda>m. cmCircleID m = k') (CircleMembership db) = []"
    by (simp add: filter_empty_conv)
  moreover have "k \<noteq> k'" using fresh ex by blast
  ultimately show ?thesis by (simp add: membershipsOf_def fillCircle_fields)
qed

lemma findAvailable_Some:
  "findAvailable db cs = Some c \<Longrightarrow>
     c \<in> set cs \<and> int (length (membershipsOf db (cID c))) < cMaxMembers c"
  by (induction cs) (auto split: if_splits)

lemma capacityRespected_iff:
  "capacityRespected db =
     (\<forall>c\<in>set (Circle db). cStatus c = CircleStatusActive \<longrightarrow>
         int (length (membershipsOf db (cID c))) \<le> cMaxMembers c)"
  by (simp add: capacityRespected_def list_all_iff)

lemma capacity_add_member:
  assumes "capacityRespected db"
    and "\<forall>c\<in>set (Circle db). cID c = k \<longrightarrow> int (length (membershipsOf db k)) < cMaxMembers c"
  shows "capacityRespected (db\<lparr>CircleMembership := CircleMembership db @ [\<lparr>cmCircleID = k, cmUserID = u\<rparr>]\<rparr>)"
  unfolding capacityRespected_iff
proof (intro ballI impI)
  fix c
  assume c: "c \<in> set (Circle (db\<lparr>CircleMembership := CircleMembership db @ [\<lparr>cmCircleID = k, cmUserID = u\<rparr>]\<rparr>))"
    and act: "cStatus c = CircleStatusActive"
  have cin: "c \<in> set (Circle db)" using c by simp
  have old: "int (length (membershipsOf db (cID c))) \<le> cMaxMembers c"
    using assms(1) cin act by (simp add: capacityRespected_iff)
  show "int (length (membershipsOf (db\<lparr>CircleMembership := CircleMembership db @ [\<lparr>cmCircleID = k, cmUserID = u\<rparr>]\<rparr>) (cID c)))
          \<le> cMaxMembers c"
  proof (cases "cID c = k")
    case True
    then have "int (length (membershipsOf db k)) < cMaxMembers c"
      using assms(2) cin by simp
    then show ?thesis using True by (simp add: membershipsOf_def)
  next
    case False
    then show ?thesis using old by (simp add: membershipsOf_def)
  qed
qed

lemma capacity_set_full:
  assumes "capacityRespected db"
  shows "capacityRespected (db\<lparr>Circle := map (\<lambda>c. if cID c = k then c\<lparr>cStatus := CircleStatusFull\<rparr> else c) (Circle db)\<rparr>)"
  unfolding capacityRespected_iff
proof (intro ballI impI)
  fix x
  assume x: "x \<in> set (Circle (db\<lparr>Circle := map (\<lambda>c. if cID c = k then c\<lparr>cStatus := CircleStatusFull\<rparr> else c) (Circle db)\<rparr>))"
    and act: "cStatus x = CircleStatusActive"
  then obtain y where y: "y \<in> set (Circle db)"
    "x = (if cID y = k then y\<lparr>cStatus := CircleStatusFull\<rparr> else y)"
    by auto
  have xy: "x = y"
  proof (cases "cID y = k")
    case True
    then show ?thesis using y(2) act by simp
  next
    case False
    then show ?thesis using y(2) by simp
  qed
  have "int (length (membershipsOf db (cID y))) \<le> cMaxMembers y"
    using assms y(1) act xy by (simp add: capacityRespected_iff)
  then show "int (length (membershipsOf (db\<lparr>Circle := map (\<lambda>c. if cID c = k then c\<lparr>cStatus := CircleStatusFull\<rparr> else c) (Circle db)\<rparr>) (cID x)))
      \<le> cMaxMembers x"
    using xy by (simp add: membershipsOf_def)
qed

lemma AddUserToCircle_capacity:
  assumes cap: "capacityRespected db"
    and room: "\<forall>c\<in>set (Circle db). cID c = k \<longrightarrow> int (length (membershipsOf db k)) < cMaxMembers c"
  shows "capacityRespected (snd (AddUserToCircle env db k u))"
proof -
  let ?db1 = "db\<lparr>CircleMembership := CircleMembership db @ [\<lparr>cmCircleID = k, cmUserID = u\<rparr>]\<rparr>"
  let ?db2 = "?db1\<lparr>Circle := map (\<lambda>c. if cID c = k then c\<lparr>cStatus := CircleStatusFull\<rparr> else c) (Circle ?db1)\<rparr>"
  have c1: "capacityRespected ?db1"
    using cap room by (rule capacity_add_member)
  have c2: "capacityRespected ?db2"
    using c1 by (rule capacity_set_full)
  have "snd (AddUserToCircle env db k u) = db \<or> snd (AddUserToCircle env db k u) = ?db1
        \<or> snd (AddUserToCircle env db k u) = ?db2"
    by (simp add: AddUserToCircle_def Let_def split: option.splits)
  then show ?thesis
    using cap c1 c2 by auto
qed

lemma FindOrCreateCircle_result:
  assumes "FindOrCreateCircle env db category = (Inr circle, db1)"
  shows "(db1 = db \<and> circle \<in> set (Circle db)
            \<and> int (length (membershipsOf db (cID circle))) < cMaxMembers circle)
       \<or> (db1 = db\<lparr>Circle := Circle db @ [circle]\<rparr> \<and> \<not> circleExists db (cID circle)
            \<and> cMaxMembers circle = defaultMaxMembers env)"
proof (cases "findAvailable db
               (filter (\<lambda>c. cCategory c = category \<and> cStatus c = CircleStatusActive) (Circle db))")
  case (Some c)
  then have "circle = c" "db1 = db"
    using assms by (simp_all add: FindOrCreateCircle_def split: if_splits)
  then show ?thesis
    using findAvailable_Some[OF Some] by simp
next
  case None
  then show ?thesis
    using assms
    by (auto simp: FindOrCreateCircle_def split: if_splits sum.splits option.splits)
qed

lemma FindOrCreateCircle_error:
  "FindOrCreateCircle env db category = (Inl e, db1) \<Longrightarrow> db1 = db"
  by (auto simp: FindOrCreateCircle_def split: if_splits sum.splits option.splits)

lemma circle_ids_member:
  "distinct (map cID cs) \<Longrightarrow> c \<in> set cs \<Longrightarrow> x \<in> set cs \<Longrightarrow> cID x = cID c \<Longrightarrow> x = c"
  by (induction cs) (auto simp: image_iff)

lemma MatchUserToCircle_capacity:
  assumes wf: "wellFormed db" and cap: "capacityRespected db" and dmax: "1 \<le> defaultMaxMembers env"
  shows "capacityRespected (snd (MatchUserToCircle env db userID topics phq2Total gad2Total))"
proof (cases "IsCriticalRisk phq2Total gad2Total")
  case True
  then show ?thesis using cap by (simp add: MatchUserToCircle_def)
next
  case False
  obtain res db1 where f: "FindOrCreateCircle env db (DetermineCircleCategory (caseTable env) topics) = (res, db1)"
    by (cases "FindOrCreateCircle env db (DetermineCircleCategory (caseTable env) topics)")
  show ?thesis
  proof (cases res)
    case (Inl e)
    then have "db1 = db" using f FindOrCreateCircle_error by blast
    then show ?thesis using False f Inl cap by (simp add: MatchUserToCircle_def)
  next
    case (Inr circle)
    have dist: "distinct (map cID (Circle db))"
      and fk: "\<forall>m\<in>set (CircleMembership db). circleExists db (cmCircleID m)"
      using wf by (simp_all add: wellFormed_def list_all_iff)
    have both: "capacityRespected db1
        \<and> (\<forall>c\<in>set (Circle db1). cID c = cID circle \<longrightarrow>
              int (length (membershipsOf db1 (cID circle))) < cMaxMembers c)"
    proof -
      from FindOrCreateCircle_result[OF f[unfolded Inr]]
      consider (found) "db1 = db" "circle \<in> set (Circle db)"
          "int (length (membershipsOf db (cID circle))) < cMaxMembers circle"
        | (created) "db1 = db\<lparr>Circle := Circle db @ [circle]\<rparr>" "\<not> circleExists db (cID circle)"
          "cMaxMembers circle = defaultMaxMembers env"
        by blast
      then show ?thesis
      proof cases
        case found
        have "\<forall>c\<in>set (Circle db). cID c = cID circle \<longrightarrow> c = circle"
          using circle_ids_member[OF dist found(2)] by blast
        then show ?thesis using found cap by auto
      next
        case created
        have none: "membershipsOf db (cID circle) = []"
        proof -
          have "\<forall>m\<in>set (CircleMembership db). cmCircleID m \<noteq> cID circle"
            using fk created(2) by auto
          then show ?thesis by (simp add: membershipsOf_def filter_empty_conv)
        qed
        have old: "\<forall>c\<in>set (Circle db). cID c \<noteq> cID circle"
          using created(2) by (auto simp: circleExists_def list_ex_iff)
        have "capacityRespected db1"
          using cap none created(1,3) dmax
          by (simp add: capacityRespected_iff membershipsOf_def)
        moreover have "\<forall>c\<in>set (Circle db1). cID c = cID circle \<longrightarrow>
              int (length (membershipsOf db1 (cID circle))) < cMaxMembers c"
          using old none created(1,3) dmax by (auto simp: membershipsOf_def)
        ultimately show ?thesis by simp
      qed
    qed
    have "capacityRespected (snd (AddUserToCircle env db1 (cID circle) userID))"
      using both by (intro AddUserToCircle_capacity) simp_all
    moreover have "snd (MatchUserToCircle env db userID topics phq2Total gad2Total)
        = snd (AddUserToCircle env db1 (cID circle) userID)"
      using False f Inr
      by (simp add: MatchUserToCircle_def split: prod.splits option.splits)
    ultimately show ?thesis by simp
  qed
qed

lemma circleExists_mono:
  "circleExists db k \<Longrightarrow> map cID (Circle db') = map cID (Circle db) @ extra \<Longrightarrow> circleExists db' k"
proof -
  assume a: "circleExists db k" and b: "map cID (Circle db') = map cID (Circle db) @ extra"
  have "k \<in> set (map cID (Circle db))" using a by (simp only: circleExists_ids)
  then have "k \<in> set (map cID (Circle db'))" by (simp only: b) simp
  then show ?thesis by (simp only: circleExists_ids)
qed

lemma wellFormed_add_member:
  assumes "wellFormed db" "circleExists db k"
  shows "wellFormed (db\<lparr>CircleMembership := CircleMembership db @ [\<lparr>cmCircleID = k, cmUserID = u\<rparr>]\<rparr>)"
  using assms by (simp add: wellFormed_def circleExists_def)

lemma wellFormed_set_full:
  assumes "wellFormed db"
  shows "wellFormed (db\<lparr>Circle := map (\<lambda>c. if cID c = k then c\<lparr>cStatus := CircleStatusFull\<rparr> else c) (Circle db)\<rparr>)"
proof -
  define db' where "db' = db\<lparr>Circle := map (\<lambda>c. if cID c = k then c\<lparr>cStatus := CircleStatusFull\<rparr> else c) (Circle db)\<rparr>"
  have c: "Circle db' = map (\<lambda>c. if cID c = k then c\<lparr>cStatus := CircleStatusFull\<rparr> else c) (Circle db)"
    and m: "CircleMembership db' = CircleMembership db"
    by (simp_all add: db'_def)
  have ids: "map cID (Circle db') = map cID (Circle db)"
    unfolding c by (rule map_cID_flip)
  have "distinct (map cID (Circle db))"
    using assms by (simp add: wellFormed_def)
  then have d: "distinct (map cID (Circle db'))"
    by (simp only: ids)
  have ex: "\<forall>x\<in>set (CircleMembership db). circleExists db' (cmCircleID x)"
  proof
    fix x assume "x \<in> set (CircleMembership db)"
    then have "circleExists db (cmCircleID x)"
      using assms by (simp add: wellFormed_def list_all_iff)
    then show "circleExists db' (cmCircleID x)"
      by (simp only: circleExists_ids ids)
  qed
  have "wellFormed db'"
    unfolding wellFormed_def list_all_iff m using d ex by blast
  then show ?thesis by (simp only: db'_def)
qed

lemma wellFormed_new_circle:
  assumes "wellFormed db" "\<not> circleExists db (cID c)"
  shows "wellFormed (db\<lparr>Circle := Circle db @ [c]\<rparr>)"
proof -
  define db' where "db' = db\<lparr>Circle := Circle db @ [c]\<rparr>"
  have ids: "map cID (Circle db') = map cID (Circle db) @ [cID c]"
    and m: "CircleMembership db' = CircleMembership db"
    by (simp_all add: db'_def)
  have "cID c \<notin> set (map cID (Circle db))"
    using assms(2) by (simp add: circleExists_ids)
  moreover have "distinct (map cID (Circle db))"
    using assms(1) by (simp add: wellFormed_def)
  ultimately have d: "distinct (map cID (Circle db'))"
    unfolding ids by simp
  have ex: "\<forall>x\<in>set (CircleMembership db). circleExists db' (cmCircleID x)"
  proof
    fix x assume "x \<in> set (CircleMembership db)"
    then have "circleExists db (cmCircleID x)"
      using assms(1) by (simp add: wellFormed_def list_all_iff)
    then show "circleExists db' (cmCircleID x)"
      using ids by (rule circleExists_mono)
  qed
  have "wellFormed db'"
    unfolding wellFormed_def list_all_iff m using d ex by blast
  then show ?thesis by (simp only: db'_def)
qed

lemma AddUserToCircle_wellFormed:
  assumes "wellFormed db"
  shows "wellFormed (snd (AddUserToCircle env db k u))"
proof (cases "circleExists db k")
  case False
  then show ?thesis using assms by (simp add: AddUserToCircle_def)
next
  case True
  let ?db1 = "db\<lparr>CircleMembership := CircleMembership db @ [\<lparr>cmCircleID = k, cmUserID = u\<rparr>]\<rparr>"
  let ?db2 = "?db1\<lparr>Circle := map (\<lambda>c. if cID c = k then c\<lparr>cStatus := CircleStatusFull\<rparr> else c) (Circle ?db1)\<rparr>"
  have w1: "wellFormed ?db1" using assms True by (rule wellFormed_add_member)
  have w2: "wellFormed ?db2" using w1 by (rule wellFormed_set_full)
  have "snd (AddUserToCircle env db k u) = db \<or> snd (AddUserToCircle env db k u) = ?db1
        \<or> snd (AddUserToCircle env db k u) = ?db2"
    by (simp add: AddUserToCircle_def Let_def split: option.splits)
  then show ?thesis
    using assms w1 w2 by auto
qed

lemma MatchUserToCircle_wellFormed:
  assumes wf: "wellFormed db"
  shows "wellFormed (snd (MatchUserToCircle env db userID topics phq2Total gad2Total))"
proof (cases "IsCriticalRisk phq2Total gad2Total")
  case True
  then show ?thesis using wf by (simp add: MatchUserToCircle_def)
next
  case False
  obtain res db1 where f: "FindOrCreateCircle env db (DetermineCircleCategory (caseTable env) topics) = (res, db1)"
    by (cases "FindOrCreateCircle env db (DetermineCircleCategory (caseTable env) topics)")
  show ?thesis
  proof (cases res)
    case (Inl e)
    then have "db1 = db" using f FindOrCreateCircle_error by blast
    then show ?thesis using False f Inl wf by (simp add: MatchUserToCircle_def)
  next
    case (Inr circle)
    have "wellFormed db1"
      using FindOrCreateCircle_result[OF f[unfolded Inr]] wf wellFormed_new_circle by auto
    then have "wellFormed (snd (AddUserToCircle env db1 (cID circle) userID))"
      by (rule AddUserToCircle_wellFormed)
    moreover have "snd (MatchUserToCircle env db userID topics phq2Total gad2Total)
        = snd (AddUserToCircle env db1 (cID circle) userID)"
      using False f Inr
      by (simp add: MatchUserToCircle_def split: prod.splits option.splits)
    ultimately show ?thesis by simp
  qed
qed

text \<open>
  C7. In a database whose only active circle of a category has one member less than its
  capacity, and with no call failing: FindOrCreateCircle selects that circle;
  AddUserToCircle for a user without a membership adds the membership, which brings the
  member count to the capacity, and sets the status to full; FindOrCreateCircle for the
  same category then creates a new, active circle with no members instead of selecting
  the full one. If every active circle respected its capacity before, so it does after
  each of the two steps. In general, whatever calls fail, MatchUserToCircle keeps the
  integrity of the database and keeps every active circle within its capacity, provided
  the capacity of a created circle is at least 1.
\<close>

theorem circle_fills_then_next_assignment_creates:
  assumes nofail: "\<forall>call. \<not> failing env call"
    and dist: "distinct (map cID (Circle db))"
    and fk: "\<forall>m\<in>set (CircleMembership db). circleExists db (cmCircleID m)"
    and small: "int (length (Circle db)) < 2 ^ 63 - 1"
    and dmax: "0 \<le> defaultMaxMembers env"
    and c_in: "circle \<in> set (Circle db)"
    and c_cat: "cCategory circle = category"
    and c_act: "cStatus circle = CircleStatusActive"
    and only: "\<forall>c\<in>set (Circle db). cCategory c = category \<and> cStatus c = CircleStatusActive \<longrightarrow> c = circle"
    and count: "int (length (membershipsOf db (cID circle))) = cMaxMembers circle - 1"
    and user: "userExists db userID"
    and nomem: "\<not> list_ex (\<lambda>m. cmUserID m = userID) (CircleMembership db)"
    and mods: "\<exists>u\<in>set (User db). uRole u = UserRoleModerator"
    and fresh: "\<not> circleExists db (newID env)"
  shows "\<exists>db1 circle2 db2.
      FindOrCreateCircle env db category = (Inr circle, db)
    \<and> AddUserToCircle env db (cID circle) userID = (None, db1)
    \<and> db1 = fillCircle db (cID circle) userID
    \<and> int (length (membershipsOf db1 (cID circle))) = cMaxMembers circle
    \<and> find (\<lambda>c. cID c = cID circle) (Circle db1) = Some (circle\<lparr>cStatus := CircleStatusFull\<rparr>)
    \<and> FindOrCreateCircle env db1 category = (Inr circle2, db2)
    \<and> db2 = db1\<lparr>Circle := Circle db1 @ [circle2]\<rparr>
    \<and> cID circle2 = newID env
    \<and> cID circle2 \<noteq> cID circle
    \<and> cCategory circle2 = category
    \<and> cStatus circle2 = CircleStatusActive
    \<and> membershipsOf db2 (cID circle2) = []
    \<and> (capacityRespected db \<longrightarrow> capacityRespected db1 \<and> capacityRespected db2)
    \<and> (\<forall>env' db' userID' topics' phq2Total gad2Total.
          wellFormed db' \<and> capacityRespected db' \<and> 1 \<le> defaultMaxMembers env' \<longrightarrow>
          wellFormed (snd (MatchUserToCircle env' db' userID' topics' phq2Total gad2Total))
          \<and> capacityRespected (snd (MatchUserToCircle env' db' userID' topics' phq2Total gad2Total)))"
proof -
  define db1 where "db1 = fillCircle db (cID circle) userID"
  have sel: "FindOrCreateCircle env db category = (Inr circle, db)"
  proof (rule FindOrCreateCircle_selects)
    show "\<not> failing env FindOrCreateCircle_CircleFindMany" using nofail by simp
    show "filter (\<lambda>c. cCategory c = category \<and> cStatus c = CircleStatusActive) (Circle db) = [circle]"
      by (rule filter_category_only[OF dist c_in c_cat c_act only])
    show "int (length (membershipsOf db (cID circle))) < cMaxMembers circle"
      using count by simp
  qed
  have add: "AddUserToCircle env db (cID circle) userID = (None, db1)"
    unfolding db1_def fillCircle_def
    using nofail dist c_in count user nomem by (rule AddUserToCircle_fills)
  have cnt1: "int (length (membershipsOf db1 (cID circle))) = cMaxMembers circle"
    unfolding db1_def using count by (rule fillCircle_count)
  have find1: "find (\<lambda>c. cID c = cID circle) (Circle db1) = Some (circle\<lparr>cStatus := CircleStatusFull\<rparr>)"
    unfolding db1_def using dist c_in by (rule fillCircle_find)
  have none1: "filter (\<lambda>c. cCategory c = category \<and> cStatus c = CircleStatusActive) (Circle db1) = []"
    unfolding db1_def using only by (rule fillCircle_no_active)
  have fresh1: "\<not> circleExists db1 (newID env)"
    unfolding db1_def using fresh by (simp add: fillCircle_circleExists)
  have mods1: "\<exists>u\<in>set (User db1). uRole u = UserRoleModerator"
    unfolding db1_def using mods by (simp add: fillCircle_fields)
  have small1: "int (length (Circle db1)) < 2 ^ 63 - 1"
    unfolding db1_def using small by (simp add: fillCircle_fields)
  from FindOrCreateCircle_creates[OF nofail none1 mods1 fresh1 small1]
  obtain moderator where "moderator \<in> set (User db1)"
    and both: "uRole moderator = UserRoleModerator \<and> FindOrCreateCircle env db1 category =
        (Inr \<lparr>cID = newID env, cName = generateCircleName env db1 category,
              cCategory = category, cStatus = CircleStatusActive,
              cModeratorID = uID moderator, cMaxMembers = defaultMaxMembers env\<rparr>,
         db1\<lparr>Circle := Circle db1 @
              [\<lparr>cID = newID env, cName = generateCircleName env db1 category,
                cCategory = category, cStatus = CircleStatusActive,
                cModeratorID = uID moderator, cMaxMembers = defaultMaxMembers env\<rparr>]\<rparr>)"
    ..
  note cr = conjunct2[OF both]
  define c2 where "c2 = \<lparr>cID = newID env, cName = generateCircleName env db1 category,
              cCategory = category, cStatus = CircleStatusActive,
              cModeratorID = uID moderator, cMaxMembers = defaultMaxMembers env\<rparr>"
  define db2 where "db2 = db1\<lparr>Circle := Circle db1 @ [c2]\<rparr>"
  have cr': "FindOrCreateCircle env db1 category = (Inr c2, db2)"
    unfolding db2_def c2_def by (rule cr)
  have c2f: "cID c2 = newID env" "cCategory c2 = category" "cStatus c2 = CircleStatusActive"
    "cMaxMembers c2 = defaultMaxMembers env"
    by (simp_all add: c2_def)
  have cex: "circleExists db (cID circle)"
    using c_in by (auto simp: circleExists_def list_ex_iff)
  have neq: "cID c2 \<noteq> cID circle"
    using fresh cex c2f(1) by auto
  have nomem1: "membershipsOf db1 (cID c2) = []"
    unfolding db1_def c2f(1) using fk fresh cex by (rule new_circle_no_members)
  have nomem2: "membershipsOf db2 (cID c2) = []"
    using nomem1 by (simp add: db2_def membershipsOf_def)
  have inv: "capacityRespected db \<longrightarrow> capacityRespected db1 \<and> capacityRespected db2"
  proof
    assume "capacityRespected db"
    then have one: "capacityRespected db1"
      unfolding db1_def by (rule fillCircle_capacity)
    have "capacityRespected db2"
      unfolding db2_def using one nomem1 by (rule new_circle_capacity) (simp add: c2f dmax)
    then show "capacityRespected db1 \<and> capacityRespected db2"
      using one by simp
  qed
  have general: "\<forall>env' db' userID' topics' phq2Total gad2Total.
          wellFormed db' \<and> capacityRespected db' \<and> 1 \<le> defaultMaxMembers env' \<longrightarrow>
          wellFormed (snd (MatchUserToCircle env' db' userID' topics' phq2Total gad2Total))
          \<and> capacityRespected (snd (MatchUserToCircle env' db' userID' topics' phq2Total gad2Total))"
    using MatchUserToCircle_wellFormed MatchUserToCircle_capacity by blast
  have "FindOrCreateCircle env db category = (Inr circle, db)
    \<and> AddUserToCircle env db (cID circle) userID = (None, db1)
    \<and> db1 = fillCircle db (cID circle) userID
    \<and> int (length (membershipsOf db1 (cID circle))) = cMaxMembers circle
    \<and> find (\<lambda>c. cID c = cID circle) (Circle db1) = Some (circle\<lparr>cStatus := CircleStatusFull\<rparr>)
    \<and> FindOrCreateCircle env db1 category = (Inr c2, db2)
    \<and> db2 = db1\<lparr>Circle := Circle db1 @ [c2]\<rparr>
    \<and> cID c2 = newID env
    \<and> cID c2 \<noteq> cID circle
    \<and> cCategory c2 = category
    \<and> cStatus c2 = CircleStatusActive
    \<and> membershipsOf db2 (cID c2) = []
    \<and> (capacityRespected db \<longrightarrow> capacityRespected db1 \<and> capacityRespected db2)
    \<and> (\<forall>env' db' userID' topics' phq2Total gad2Total.
          wellFormed db' \<and> capacityRespected db' \<and> 1 \<le> defaultMaxMembers env' \<longrightarrow>
          wellFormed (snd (MatchUserToCircle env' db' userID' topics' phq2Total gad2Total))
          \<and> capacityRespected (snd (MatchUserToCircle env' db' userID' topics' phq2Total gad2Total)))"
    using sel add db1_def cnt1 find1 cr' db2_def c2f(1,2,3) neq nomem2 inv general
    by (intro conjI)
  then show ?thesis by blast
qed

theorem circle_fills_then_next_assignment_creates_witness:
  "\<exists>db1 circle2 db2.
      FindOrCreateCircle (exampleEnv (\<lambda>call. False) ''c2'') exampleDB CircleCategoryAcademicStress
        = (Inr exampleCircle, exampleDB)
    \<and> AddUserToCircle (exampleEnv (\<lambda>call. False) ''c2'') exampleDB ''c1'' ''u3'' = (None, db1)
    \<and> int (length (membershipsOf db1 ''c1'')) = 3
    \<and> find (\<lambda>c. cID c = ''c1'') (Circle db1) = Some (exampleCircle\<lparr>cStatus := CircleStatusFull\<rparr>)
    \<and> FindOrCreateCircle (exampleEnv (\<lambda>call. False) ''c2'') db1 CircleCategoryAcademicStress
        = (Inr circle2, db2)
    \<and> cID circle2 = ''c2''
    \<and> cStatus circle2 = CircleStatusActive
    \<and> Circle db2 = [exampleCircle\<lparr>cStatus := CircleStatusFull\<rparr>, circle2]
    \<and> membershipsOf db2 ''c2'' = []
    \<and> capacityRespected exampleDB \<and> capacityRespected db1 \<and> capacityRespected db2
    \<and> wellFormed exampleDB
    \<and> capacityRespected
          (snd (MatchUserToCircle (exampleEnv (\<lambda>call. False) ''c2'') exampleDB ''u3''
                  [''Exam stress''] 1 2))"
proof -
  let ?env = "exampleEnv (\<lambda>call. False) ''c2''"
  have cap: "capacityRespected exampleDB"
    by (simp add: capacityRespected_def membershipsOf_def example_simps)
  have "\<exists>db1 circle2 db2.
      FindOrCreateCircle ?env exampleDB CircleCategoryAcademicStress = (Inr exampleCircle, exampleDB)
    \<and> AddUserToCircle ?env exampleDB (cID exampleCircle) ''u3'' = (None, db1)
    \<and> db1 = fillCircle exampleDB (cID exampleCircle) ''u3''
    \<and> int (length (membershipsOf db1 (cID exampleCircle))) = cMaxMembers exampleCircle
    \<and> find (\<lambda>c. cID c = cID exampleCircle) (Circle db1) = Some (exampleCircle\<lparr>cStatus := CircleStatusFull\<rparr>)
    \<and> FindOrCreateCircle ?env db1 CircleCategoryAcademicStress = (Inr circle2, db2)
    \<and> db2 = db1\<lparr>Circle := Circle db1 @ [circle2]\<rparr>
    \<and> cID circle2 = newID ?env
    \<and> cID circle2 \<noteq> cID exampleCircle
    \<and> cCategory circle2 = CircleCategoryAcademicStress
    \<and> cStatus circle2 = CircleStatusActive
    \<and> membershipsOf db2 (cID circle2) = []
    \<and> (capacityRespected exampleDB \<longrightarrow> capacityRespected db1 \<and> capacityRespected db2)
    \<and> (\<forall>env' db' userID' topics' phq2Total gad2Total.
          wellFormed db' \<and> capacityRespected db' \<and> 1 \<le> defaultMaxMembers env' \<longrightarrow>
          wellFormed (snd (MatchUserToCircle env' db' userID' topics' phq2Total gad2Total))
          \<and> capacityRespected (snd (MatchUserToCircle env' db' userID' topics' phq2Total gad2Total)))"
    by (rule circle_fills_then_next_assignment_creates)
      (simp_all add: example_simps membershipsOf_def circleExists_def userExists_def)
  then obtain db1 circle2 db2 where f:
      "FindOrCreateCircle ?env exampleDB CircleCategoryAcademicStress = (Inr exampleCircle, exampleDB)"
      "AddUserToCircle ?env exampleDB (cID exampleCircle) ''u3'' = (None, db1)"
      "db1 = fillCircle exampleDB (cID exampleCircle) ''u3''"
      "int (length (membershipsOf db1 (cID exampleCircle))) = cMaxMembers exampleCircle"
      "find (\<lambda>c. cID c = cID exampleCircle) (Circle db1) = Some (exampleCircle\<lparr>cStatus := CircleStatusFull\<rparr>)"
      "FindOrCreateCircle ?env db1 CircleCategoryAcademicStress = (Inr circle2, db2)"
      "db2 = db1\<lparr>Circle := Circle db1 @ [circle2]\<rparr>"
      "cID circle2 = newID ?env"
      "cStatus circle2 = CircleStatusActive"
      "membershipsOf db2 (cID circle2) = []"
      "capacityRespected exampleDB \<longrightarrow> capacityRespected db1 \<and> capacityRespected db2"
      "\<forall>env' db' userID' topics' phq2Total gad2Total.
          wellFormed db' \<and> capacityRespected db' \<and> 1 \<le> defaultMaxMembers env' \<longrightarrow>
          wellFormed (snd (MatchUserToCircle env' db' userID' topics' phq2Total gad2Total))
          \<and> capacityRespected (snd (MatchUserToCircle env' db' userID' topics' phq2Total gad2Total))"
    by blast
  have wf: "wellFormed exampleDB"
    by (simp add: wellFormed_def circleExists_def example_simps)
  have dm: "1 \<le> defaultMaxMembers ?env"
    by (simp add: exampleEnv_def)
  have after: "capacityRespected (snd (MatchUserToCircle ?env exampleDB ''u3'' [''Exam stress''] 1 2))"
    using f(12) wf cap dm by blast
  have id1: "cID exampleCircle = ''c1''" and mx: "cMaxMembers exampleCircle = 3"
    by (simp_all add: exampleCircle_def)
  have nid: "newID ?env = ''c2''" by (simp add: exampleEnv_def)
  have circles2: "Circle db2 = [exampleCircle\<lparr>cStatus := CircleStatusFull\<rparr>, circle2]"
    unfolding f(7) f(3) by (simp add: fillCircle_def exampleDB_def exampleCircle_def)
  have m2: "membershipsOf db2 ''c2'' = []"
    using f(10) f(8) nid by simp
  have caps: "capacityRespected db1" "capacityRespected db2"
    using f(11) cap by simp_all
  have "FindOrCreateCircle (exampleEnv (\<lambda>call. False) ''c2'') exampleDB CircleCategoryAcademicStress
        = (Inr exampleCircle, exampleDB)
    \<and> AddUserToCircle (exampleEnv (\<lambda>call. False) ''c2'') exampleDB ''c1'' ''u3'' = (None, db1)
    \<and> int (length (membershipsOf db1 ''c1'')) = 3
    \<and> find (\<lambda>c. cID c = ''c1'') (Circle db1) = Some (exampleCircle\<lparr>cStatus := CircleStatusFull\<rparr>)
    \<and> FindOrCreateCircle (exampleEnv (\<lambda>call. False) ''c2'') db1 CircleCategoryAcademicStress
        = (Inr circle2, db2)
    \<and> cID circle2 = ''c2''
    \<and> cStatus circle2 = CircleStatusActive
    \<and> Circle db2 = [exampleCircle\<lparr>cStatus := CircleStatusFull\<rparr>, circle2]
    \<and> membershipsOf db2 ''c2'' = []
    \<and> capacityRespected exampleDB \<and> capacityRespected db1 \<and> capacityRespected db2
    \<and> wellFormed exampleDB
    \<and> capacityRespected
          (snd (MatchUserToCircle (exampleEnv (\<lambda>call. False) ''c2'') exampleDB ''u3''
                  [''Exam stress''] 1 2))"
    using f(1) f(2)[unfolded id1] f(4)[unfolded id1 mx] f(5)[unfolded id1] f(6) f(8)[unfolded nid]
      f(9) circles2 m2 cap caps wf after
    by (intro conjI)
  then show ?thesis by blast
qed

section \<open>Properties of the socket events\<close>

lemma userHasCircleAccess_logs: "list_all isLog (fst (userHasCircleAccess env db circleID userID))"
  by (simp add: userHasCircleAccess_def isLog_def split: option.splits)

lemma userHasCircleAccess_allowed:
  "snd (userHasCircleAccess env db circleID userID) = Inr True \<Longrightarrow>
     userHasCircleAccess env db circleID userID = ([], Inr True)"
  by (auto simp: userHasCircleAccess_def split: if_splits option.splits)

lemma userHasCircleAccess_MessageRead:
  "userHasCircleAccess env (db\<lparr>MessageRead := rs\<rparr>) circleID userID =
     userHasCircleAccess env db circleID userID"
  by (simp add: userHasCircleAccess_def)

lemma mark_read_duplicate:
  assumes "\<not> failing env mark_read_MessageReadFindFirst"
    and "getUserIDFromConn s = Some userID"
    and "list_ex (\<lambda>r. mrMessageID r = rrMessageID payload \<and> mrUserID r = userID) (MessageRead db)"
  shows "snd (mark_read env db s (Some payload)) = db
       \<and> list_all isLog (fst (mark_read env db s (Some payload)))"
proof -
  obtain logs res where a: "userHasCircleAccess env db (rrCircleID payload) userID = (logs, res)"
    by (cases "userHasCircleAccess env db (rrCircleID payload) userID")
  have l: "list_all isLog logs"
    using userHasCircleAccess_logs[of env db "rrCircleID payload" userID] a by simp
  show ?thesis
    using assms a l
    by (cases res) (simp_all add: mark_read_def isLog_def)
qed

text \<open>
  C8. For an authenticated user with access to the circle, an existing message and no call
  failing: the first mark_read stores the receipt and broadcasts message_read with the full
  reader list; the database then holds exactly one receipt of the pair; the second
  mark_read returns the same database and only a log line, no event. In general, whenever
  the receipt of the pair exists and its lookup does not fail, mark_read changes nothing
  and sends nothing but log lines.
\<close>

theorem mark_read_idempotent:
  assumes auth: "getUserIDFromConn s = Some userID"
    and circ: "rrCircleID payload \<noteq> []"
    and mid: "rrMessageID payload \<noteq> []"
    and access: "snd (userHasCircleAccess env db (rrCircleID payload) userID) = Inr True"
    and msg: "messageExists db (rrMessageID payload)"
    and usr: "userExists db userID"
    and nofail: "\<forall>call. \<not> failing env call"
    and fresh: "\<not> list_ex (\<lambda>r. mrMessageID r = rrMessageID payload \<and> mrUserID r = userID)
                   (MessageRead db)"
  shows "\<exists>db1.
      mark_read env db s (Some payload) =
        ([Log ''User %s marking message %s as read in circle %s'',
          Log ''Message %s marked as read by user %s'',
          BroadcastToRoom (rrCircleID payload) ''message_read''
            (MessageReadUpdate (rrMessageID payload) userID
               (map mrUserID (filter (\<lambda>r. mrMessageID r = rrMessageID payload) (MessageRead db))
                  @ [userID]))], db1)
    \<and> db1 = db\<lparr>MessageRead := MessageRead db @
                  [\<lparr>mrMessageID = rrMessageID payload, mrUserID = userID\<rparr>]\<rparr>
    \<and> length (filter (\<lambda>r. mrMessageID r = rrMessageID payload \<and> mrUserID r = userID)
                 (MessageRead db1)) = 1
    \<and> mark_read env db1 s (Some payload) =
        ([Log ''User %s marking message %s as read in circle %s''], db1)
    \<and> (\<forall>env' db' s' userID' payload'.
          \<not> failing env' mark_read_MessageReadFindFirst
          \<and> getUserIDFromConn s' = Some userID'
          \<and> list_ex (\<lambda>r. mrMessageID r = rrMessageID payload' \<and> mrUserID r = userID') (MessageRead db')
          \<longrightarrow> snd (mark_read env' db' s' (Some payload')) = db'
              \<and> list_all isLog (fst (mark_read env' db' s' (Some payload'))))"
proof -
  let ?r = "\<lparr>mrMessageID = rrMessageID payload, mrUserID = userID\<rparr>"
  let ?db1 = "db\<lparr>MessageRead := MessageRead db @ [?r]\<rparr>"
  note acc = userHasCircleAccess_allowed[OF access]
  have acc1: "userHasCircleAccess env ?db1 (rrCircleID payload) userID = ([], Inr True)"
    using acc by (simp only: userHasCircleAccess_MessageRead)
  have first: "mark_read env db s (Some payload) =
        ([Log ''User %s marking message %s as read in circle %s'',
          Log ''Message %s marked as read by user %s'',
          BroadcastToRoom (rrCircleID payload) ''message_read''
            (MessageReadUpdate (rrMessageID payload) userID
               (map mrUserID (filter (\<lambda>r. mrMessageID r = rrMessageID payload) (MessageRead db))
                  @ [userID]))], ?db1)"
    using auth circ mid acc msg usr nofail fresh
    by (simp add: mark_read_def)
  have none: "filter (\<lambda>r. mrMessageID r = rrMessageID payload \<and> mrUserID r = userID) (MessageRead db) = []"
    using fresh by (simp add: filter_empty_conv list_ex_iff)
  have one: "length (filter (\<lambda>r. mrMessageID r = rrMessageID payload \<and> mrUserID r = userID)
                 (MessageRead ?db1)) = 1"
    using none by simp
  have second: "mark_read env ?db1 s (Some payload) =
        ([Log ''User %s marking message %s as read in circle %s''], ?db1)"
    using auth circ mid acc1 nofail
    by (simp add: mark_read_def)
  have dup: "\<forall>env' db' s' userID' payload'.
          \<not> failing env' mark_read_MessageReadFindFirst
          \<and> getUserIDFromConn s' = Some userID'
          \<and> list_ex (\<lambda>r. mrMessageID r = rrMessageID payload' \<and> mrUserID r = userID') (MessageRead db')
          \<longrightarrow> snd (mark_read env' db' s' (Some payload')) = db'
              \<and> list_all isLog (fst (mark_read env' db' s' (Some payload')))"
    using mark_read_duplicate by blast
  show ?thesis
    using first one second dup by blast
qed

theorem mark_read_idempotent_witness:
  "\<exists>db1.
      mark_read (exampleEnv (\<lambda>call. False) ''r2'') exampleDB \<lparr>ctxUserID = Some ''u2'', Rooms = [''c1'']\<rparr>
          (Some \<lparr>rrMessageID = ''m1'', rrCircleID = ''c1''\<rparr>) =
        ([Log ''User %s marking message %s as read in circle %s'',
          Log ''Message %s marked as read by user %s'',
          BroadcastToRoom ''c1'' ''message_read'' (MessageReadUpdate ''m1'' ''u2'' [''u1'', ''u2''])],
         db1)
    \<and> MessageRead db1 = [\<lparr>mrMessageID = ''m1'', mrUserID = ''u1''\<rparr>,
                          \<lparr>mrMessageID = ''m1'', mrUserID = ''u2''\<rparr>]
    \<and> mark_read (exampleEnv (\<lambda>call. False) ''r3'') db1 \<lparr>ctxUserID = Some ''u2'', Rooms = [''c1'']\<rparr>
          (Some \<lparr>rrMessageID = ''m1'', rrCircleID = ''c1''\<rparr>) =
        ([Log ''User %s marking message %s as read in circle %s''], db1)"
proof -
  let ?env = "exampleEnv (\<lambda>call. False) ''r2''"
  let ?s = "\<lparr>ctxUserID = Some ''u2'', Rooms = [''c1'']\<rparr>"
  let ?p = "\<lparr>rrMessageID = ''m1'', rrCircleID = ''c1''\<rparr>"
  have "\<exists>db1.
      mark_read ?env exampleDB ?s (Some ?p) =
        ([Log ''User %s marking message %s as read in circle %s'',
          Log ''Message %s marked as read by user %s'',
          BroadcastToRoom (rrCircleID ?p) ''message_read''
            (MessageReadUpdate (rrMessageID ?p) ''u2''
               (map mrUserID (filter (\<lambda>r. mrMessageID r = rrMessageID ?p) (MessageRead exampleDB))
                  @ [''u2'']))], db1)
    \<and> db1 = exampleDB\<lparr>MessageRead := MessageRead exampleDB @
                  [\<lparr>mrMessageID = rrMessageID ?p, mrUserID = ''u2''\<rparr>]\<rparr>
    \<and> length (filter (\<lambda>r. mrMessageID r = rrMessageID ?p \<and> mrUserID r = ''u2'')
                 (MessageRead db1)) = 1
    \<and> mark_read ?env db1 ?s (Some ?p) =
        ([Log ''User %s marking message %s as read in circle %s''], db1)
    \<and> (\<forall>env' db' s' userID' payload'.
          \<not> failing env' mark_read_MessageReadFindFirst
          \<and> getUserIDFromConn s' = Some userID'
          \<and> list_ex (\<lambda>r. mrMessageID r = rrMessageID payload' \<and> mrUserID r = userID') (MessageRead db')
          \<longrightarrow> snd (mark_read env' db' s' (Some payload')) = db'
              \<and> list_all isLog (fst (mark_read env' db' s' (Some payload'))))"
    by (rule mark_read_idempotent)
      (simp_all add: example_simps getUserIDFromConn_def userHasCircleAccess_def
         messageExists_def userExists_def)
  then show ?thesis
    by (simp add: example_simps mark_read_def getUserIDFromConn_def userHasCircleAccess_def
         messageExists_def userExists_def)
qed

text \<open>
  C9. When send_message has stored the message and the creation of the sender's own read
  receipt fails, the handler logs the failure and goes on: it emits no message_error, the
  message stays stored, and new_message is broadcast to the room with readBy holding the
  sender alone.
\<close>

theorem send_message_receipt_failure_nonfatal:
  assumes auth: "getUserIDFromConn s = Some userID"
    and circ: "CircleID raw \<noteq> []"
    and cont: "TrimSpace (Content raw) \<noteq> []"
    and access: "snd (userHasCircleAccess env db (CircleID raw) userID) = Inr True"
    and created: "createMessage env db userID (raw\<lparr>Content := TrimSpace (Content raw)\<rparr>)
                    = Some (message, sender, db1)"
    and fails: "failing env send_message_MessageReadCreateOne"
  shows "send_message env db s (Some raw) =
      ([Log ''User %s sending message to circle %s'',
        Log ''Failed to create read receipt for sender: %v'',
        Log ''Message %s created by user %s in circle %s'',
        BroadcastToRoom (CircleID raw) ''new_message''
          (NewMessage
             \<lparr>respID = msgID message, respCircleID = msgCircleID message,
              respSenderID = uID sender, respSenderName = uFullName sender,
              respSenderAvatar = uProfilePicture sender, respContent = msgContent message,
              respImageURL = msgImageURL message, respCreatedAt = msgCreatedAt message,
              respReadBy = [userID]\<rparr>)],
       db1, ensureRoomMembership s (CircleID raw))"
  using auth circ cont created fails userHasCircleAccess_allowed[OF access]
  by (simp add: send_message_def Let_def broadcastNewMessage_def)

theorem send_message_receipt_failure_nonfatal_witness:
  "send_message (exampleEnv (\<lambda>call. call = send_message_MessageReadCreateOne) ''m2'') exampleDB
       \<lparr>ctxUserID = Some ''u1'', Rooms = []\<rparr>
       (Some \<lparr>CircleID = ''c1'', Content = '' hello '', ImageURL = [], Timestamp = 0\<rparr>) =
     ([Log ''User %s sending message to circle %s'',
       Log ''Failed to create read receipt for sender: %v'',
       Log ''Message %s created by user %s in circle %s'',
       BroadcastToRoom ''c1'' ''new_message''
         (NewMessage
            \<lparr>respID = ''m2'', respCircleID = ''c1'', respSenderID = ''u1'',
             respSenderName = ''User u1'', respSenderAvatar = None, respContent = ''hello'',
             respImageURL = None, respCreatedAt = ''2025-01-01T10:00:00Z'',
             respReadBy = [''u1'']\<rparr>)],
      exampleDB\<lparr>Message := Message exampleDB @
         [\<lparr>msgID = ''m2'', msgCircleID = ''c1'', msgSenderID = ''u1'', msgContent = ''hello'',
           msgImageURL = None, msgCreatedAt = ''2025-01-01T10:00:00Z''\<rparr>]\<rparr>,
      \<lparr>ctxUserID = Some ''u1'', Rooms = [''c1'']\<rparr>)"
proof -
  let ?env = "exampleEnv (\<lambda>call. call = send_message_MessageReadCreateOne) ''m2''"
  let ?s = "\<lparr>ctxUserID = Some ''u1'', Rooms = []\<rparr>"
  let ?raw = "\<lparr>CircleID = ''c1'', Content = '' hello '', ImageURL = [], Timestamp = 0\<rparr>"
  let ?msg = "\<lparr>msgID = ''m2'', msgCircleID = ''c1'', msgSenderID = ''u1'', msgContent = ''hello'',
           msgImageURL = None, msgCreatedAt = ''2025-01-01T10:00:00Z''\<rparr>"
  have trim: "TrimSpace '' hello '' = ''hello''" by (simp add: eval_simps)
  have auth: "getUserIDFromConn ?s = Some ''u1''" by (simp add: getUserIDFromConn_def)
  have circ: "CircleID ?raw \<noteq> []" by simp
  have cont: "TrimSpace (Content ?raw) \<noteq> []" by (simp add: trim)
  have access: "snd (userHasCircleAccess ?env exampleDB (CircleID ?raw) ''u1'') = Inr True"
    by (simp add: userHasCircleAccess_def example_simps)
  have created: "createMessage ?env exampleDB ''u1'' (?raw\<lparr>Content := TrimSpace (Content ?raw)\<rparr>)
      = Some (?msg, exampleUser ''u1'' UserRoleUser, exampleDB\<lparr>Message := Message exampleDB @ [?msg]\<rparr>)"
    by (simp add: createMessage_def trim circleExists_def messageExists_def example_simps)
  have fails: "failing ?env send_message_MessageReadCreateOne" by (simp add: exampleEnv_def)
  show ?thesis
    using send_message_receipt_failure_nonfatal [OF auth circ cont access created fails]
    by (simp add: ensureRoomMembership_def exampleUser_def)
qed

end
